theory Spec2Isabelle
  imports Main "HOL-Library.Word" "HOL-Library.Char_ord" "HOL-Library.List_Lexorder"
begin

section \<open>Shared types\<close>

text \<open>
  Python byte strings (\<^verbatim>\<open>bytes\<close>) are lists of 8-bit words; paths, digests and other
  text are \<^typ>\<open>string\<close>, ordered lexicographically character by character.
  Exceptions are values of \<open>exn\<close>; a call that may raise returns \<open>exn + 'a\<close>.
\<close>

type_synonym bytes = "8 word list"

datatype exn =
    IOError | StopIteration | ValueError | TypeError | CalledProcessError
  | AttributeError | IntegrityError | OperationalError | RuntimeError | RuntimeWarning

datatype log_level = DEBUG | INFO | ERROR

type_synonym log_record = "log_level \<times> string"

section \<open>The digest engine (\<^verbatim>\<open>core/newcore.py\<close>)\<close>

text \<open>
  A hashlib object is the algorithm together with the bytes fed to it so far: as
  hashlib documents, repeated calls of \<^verbatim>\<open>update\<close> are equivalent to one call with
  the concatenation of their arguments, and \<^verbatim>\<open>hexdigest\<close> is a function of the
  algorithm and of the bytes fed. That function belongs to hashlib, not to this
  repository, and is a parameter \<open>hx\<close> of the model.
\<close>

datatype hash_algo = SHA1 | SHA256 | MD5

record hash_obj =
  h_algo :: hash_algo
  h_message :: bytes

type_synonym hash_pool = "hash_obj option \<times> hash_obj option \<times> hash_obj option"

definition new_hash :: "hash_algo \<Rightarrow> hash_obj" where
  "new_hash a = \<lparr>h_algo = a, h_message = []\<rparr>"

definition hash_update :: "hash_obj \<Rightarrow> bytes \<Rightarrow> hash_obj" where
  "hash_update h chunk = h\<lparr>h_message := h_message h @ chunk\<rparr>"

definition update_hash :: "hash_obj option \<Rightarrow> bytes \<Rightarrow> hash_obj option" where
  "update_hash hash_function chunk =
     (case hash_function of None \<Rightarrow> None | Some h \<Rightarrow> Some (hash_update h chunk))"

text \<open>\<^verbatim>\<open>update_hashes\<close>: every hash of the triple that is set consumes the chunk.\<close>

fun update_hashes :: "hash_pool \<Rightarrow> bytes \<Rightarrow> hash_pool" where
  "update_hashes (hash_sha1, hash_sha256, hash_md5) chunk =
     (update_hash hash_sha1 chunk, update_hash hash_sha256 chunk, update_hash hash_md5 chunk)"

definition safe_digest :: "(hash_algo \<Rightarrow> bytes \<Rightarrow> string) \<Rightarrow> hash_obj option \<Rightarrow> string option" where
  "safe_digest hx hash_function =
     (case hash_function of None \<Rightarrow> None | Some h \<Rightarrow> Some (hx (h_algo h) (h_message h)))"

fun refresh_hash_pool :: "hash_pool \<Rightarrow> hash_pool" where
  "refresh_hash_pool (f_sha1, f_sha256, f_md5) =
     ((if f_sha1 \<noteq> None then Some (new_hash SHA1) else None),
      (if f_sha256 \<noteq> None then Some (new_hash SHA256) else None),
      (if f_md5 \<noteq> None then Some (new_hash MD5) else None))"

text \<open>
  \<^verbatim>\<open>file.read(n)\<close> on the bytes not yet read: a negative \<open>n\<close> reads to the end of the
  file, otherwise at most \<open>n\<close> bytes are read (none when \<open>n = 0\<close>). The result is the
  chunk and the bytes that remain.
\<close>

definition file_read :: "int \<Rightarrow> bytes \<Rightarrow> bytes \<times> bytes" where
  "file_read n rest = (if n < 0 then (rest, []) else (take (nat n) rest, drop (nat n) rest))"

text \<open>
  The loop \<^verbatim>\<open>for chunk in iter(lambda: file.read(read_chunk_size), b'')\<close>: it reads
  until a read returns the empty byte string.
\<close>

function read_chunks :: "int \<Rightarrow> hash_pool \<Rightarrow> bytes \<Rightarrow> hash_pool" where
  "read_chunks read_chunk_size hashes rest =
     (let (chunk, rest') = file_read read_chunk_size rest
      in if chunk = [] then hashes
         else read_chunks read_chunk_size (update_hashes hashes chunk) rest')"
  by pat_completeness auto
termination
  by (relation "measure (\<lambda>(n, hs, rest). length rest)")
     (auto simp: file_read_def split: if_splits)

declare read_chunks.simps [simp del]

text \<open>
  \<^verbatim>\<open>calculate_file_hashes\<close>; \<open>opened\<close> is what \<^verbatim>\<open>open(filename, "rb")\<close> gives:
  \<open>None\<close> when it raises, else the contents of the file.
\<close>

definition calculate_file_hashes ::
  "(hash_algo \<Rightarrow> bytes \<Rightarrow> string) \<Rightarrow> bytes option \<Rightarrow> hash_pool \<Rightarrow> int
     \<Rightarrow> exn + (string option \<times> string option \<times> string option)" where
  "calculate_file_hashes hx opened hash_functions read_chunk_size =
     (case opened of
        None \<Rightarrow> Inl IOError
      | Some contents \<Rightarrow>
          (case read_chunks read_chunk_size hash_functions contents of
             (hash_sha1, hash_sha256, hash_md5) \<Rightarrow>
               Inr (safe_digest hx hash_sha1, safe_digest hx hash_sha256, safe_digest hx hash_md5)))"

section \<open>The entry store (\<^verbatim>\<open>impl/sqlite3ds.py\<close>)\<close>

text \<open>
  \<^verbatim>\<open>core.util.Element\<close>: the six-tuple stored per file. A digest that is not
  selected and a slack that is not given are \<open>None\<close>. The text codec of
  \<^verbatim>\<open>sanitize_strings\<close> is not modelled: strings are stored as they are.
\<close>

record element =
  e_sha1 :: "string option"
  e_sha256 :: "string option"
  e_md5 :: "string option"
  e_device_id :: int
  e_file_path :: string
  e_file_slack :: "bytes option"

text \<open>
  A sqlite3 connection: the rows inserted since the last commit, and whether a
  transaction is open.
\<close>

record connection =
  pending :: "element list"
  in_transaction :: bool

text \<open>
  \<^verbatim>\<open>SQLite3DataStore\<close>. The database file is part of the state: whether it exists,
  and the committed rows of its table \<^verbatim>\<open>elements\<close>. The table is declared by
  \<^verbatim>\<open>SQLite3_setup_script.sql\<close>, which is not among the sources, so its constraints are
  the parameter \<open>db_accepts\<close>: given the rows of the table, whether an INSERT of a row is
  accepted (a table without constraints accepts every row). \<open>commit_raises\<close> says
  whether the commit at the start of \<^verbatim>\<open>get_uniques_for_device\<close> raises
  \<^verbatim>\<open>OperationalError\<close>, as it does when another connection holds a lock on the
  database.
\<close>

record sqlite3_data_store =
  db_exists :: bool
  db_rows :: "element list"
  db_accepts :: "element list \<Rightarrow> element \<Rightarrow> bool"
  commit_raises :: bool
  create_db :: bool
  force_create_db :: bool
  db_connection :: "connection option"
  current_data_runner :: int
  write_data_threshold :: int

text \<open>\<^verbatim>\<open>__init__\<close>: a threshold of zero becomes 1000, a negative one its absolute value.\<close>

definition sqlite3_data_store_init ::
  "bool \<Rightarrow> element list \<Rightarrow> (element list \<Rightarrow> element \<Rightarrow> bool) \<Rightarrow> bool \<Rightarrow> bool \<Rightarrow> bool
     \<Rightarrow> int \<Rightarrow> sqlite3_data_store" where
  "sqlite3_data_store_init file_exists file_rows accepts locked create_clean_db
       force_create_clean_db threshold =
     \<lparr>db_exists = file_exists, db_rows = file_rows, db_accepts = accepts,
      commit_raises = locked, create_db = create_clean_db,
      force_create_db = force_create_clean_db,
      db_connection = None, current_data_runner = 0,
      write_data_threshold =
        (if threshold = 0 then 1000 else if threshold < 0 then - threshold else threshold)\<rparr>"

text \<open>The rows a statement on the connection sees: the committed ones and its own.\<close>

definition visible_rows :: "sqlite3_data_store \<Rightarrow> element list" where
  "visible_rows self =
     db_rows self @ (case db_connection self of None \<Rightarrow> [] | Some con \<Rightarrow> pending con)"

definition commit :: "sqlite3_data_store \<Rightarrow> connection \<Rightarrow> sqlite3_data_store" where
  "commit self con =
     self\<lparr>db_rows := db_rows self @ pending con,
          db_connection := Some (con\<lparr>pending := [], in_transaction := False\<rparr>)\<rparr>"

definition rollback :: "sqlite3_data_store \<Rightarrow> connection \<Rightarrow> sqlite3_data_store" where
  "rollback self con =
     self\<lparr>db_connection := Some (con\<lparr>pending := [], in_transaction := False\<rparr>)\<rparr>"

text \<open>\<^verbatim>\<open>execute("BEGIN TRANSACTION")\<close> fails inside a transaction.\<close>

definition begin_transaction :: "sqlite3_data_store \<Rightarrow> exn + sqlite3_data_store" where
  "begin_transaction self =
     (case db_connection self of
        None \<Rightarrow> Inl AttributeError
      | Some con \<Rightarrow>
          if in_transaction con then Inl OperationalError
          else Inr (self\<lparr>db_connection := Some (con\<lparr>in_transaction := True\<rparr>)\<rparr>))"

text \<open>
  Modelled from the spec: \<^verbatim>\<open>SQLite3_setup_script.sql\<close>, which \<^verbatim>\<open>open\<close> runs with
  \<^verbatim>\<open>executescript\<close>, is not among the sources; it creates a clean database, whose
  table \<^verbatim>\<open>elements\<close> has no row.
\<close>

definition sql_create_script :: "sqlite3_data_store \<Rightarrow> sqlite3_data_store" where
  "sql_create_script self = self\<lparr>db_rows := []\<rparr>"

text \<open>
  \<^verbatim>\<open>open\<close>: nothing when the store is open already; else the connection is made
  (which creates a missing database file), the database is set up when asked for, and
  a transaction is begun.
\<close>

definition ds_open :: "sqlite3_data_store \<Rightarrow> exn + sqlite3_data_store" where
  "ds_open self =
     (if db_connection self \<noteq> None then Inr self
      else
        let file_exists = db_exists self;
            self1 = self\<lparr>db_exists := True,
                        db_rows := (if file_exists then db_rows self else []),
                        db_connection := Some \<lparr>pending = [], in_transaction = False\<rparr>\<rparr>
        in if force_create_db self \<or> \<not> file_exists then
             (if force_create_db self \<or> create_db self
              then begin_transaction (sql_create_script self1)
              else Inl RuntimeError)
           else begin_transaction self1)"

definition ds_close :: "sqlite3_data_store \<Rightarrow> exn + sqlite3_data_store" where
  "ds_close self =
     (case db_connection self of
        None \<Rightarrow> Inl RuntimeWarning
      | Some con \<Rightarrow> Inr ((commit self con)\<lparr>db_connection := None\<rparr>))"

definition ds_abort :: "sqlite3_data_store \<Rightarrow> exn + sqlite3_data_store" where
  "ds_abort self =
     (case db_connection self of
        None \<Rightarrow> Inl RuntimeWarning
      | Some con \<Rightarrow> Inr ((rollback self con)\<lparr>db_connection := None\<rparr>))"

text \<open>
  \<^verbatim>\<open>store_entry\<close>: the INSERT (which opens a transaction when none is open), then the
  batching counter: at the threshold the transaction is committed and a new one begun.
  The method has no duplicate check, no exception handler and no logger call.
\<close>

definition store_entry :: "sqlite3_data_store \<Rightarrow> element \<Rightarrow> exn + sqlite3_data_store" where
  "store_entry self entry =
     (case db_connection self of
        None \<Rightarrow> Inl AttributeError
      | Some con \<Rightarrow>
          if \<not> db_accepts self (visible_rows self) entry then Inl IntegrityError
          else
            let con1 = con\<lparr>pending := pending con @ [entry], in_transaction := True\<rparr>;
                self1 = self\<lparr>db_connection := Some con1,
                            current_data_runner := current_data_runner self + 1\<rparr>
            in if current_data_runner self1 \<ge> write_data_threshold self1 then
                 (case begin_transaction (commit self1 con1) of
                    Inl err \<Rightarrow> Inl err
                  | Inr self2 \<Rightarrow>
                      Inr (self2\<lparr>current_data_runner :=
                                   current_data_runner self2 - write_data_threshold self2\<rparr>))
               else Inr self1)"

text \<open>
  Modelled from the spec: the view \<^verbatim>\<open>get_unique_elements_all\<close> is declared by
  \<^verbatim>\<open>SQLite3_setup_script.sql\<close>, which is not among the sources. After the spec, the
  reference backend groups the rows of a device by SHA-1 when it is set and falls back
  to SHA-256 otherwise, and the representative of a group is its lexicographically
  smallest path.
\<close>

definition grouping_key :: "element \<Rightarrow> string option" where
  "grouping_key e = (case e_sha1 e of Some h \<Rightarrow> Some h | None \<Rightarrow> e_sha256 e)"

definition group_paths :: "element list \<Rightarrow> int \<Rightarrow> string option \<Rightarrow> string list" where
  "group_paths rows d k =
     map e_file_path (filter (\<lambda>e. e_device_id e = d \<and> grouping_key e = k) rows)"

definition get_unique_elements_all :: "element list \<Rightarrow> (int \<times> string) list" where
  "get_unique_elements_all rows =
     map (\<lambda>(d, k). (d, min_list (group_paths rows d k)))
         (remdups (map (\<lambda>e. (e_device_id e, grouping_key e)) rows))"

text \<open>
  \<^verbatim>\<open>query_unique_elements\<close>:
  \<^verbatim>\<open>SELECT PATH FROM get_unique_elements_all WHERE DEVICEID = ? ORDER BY PATH ASC\<close>.
\<close>

definition query_unique_elements :: "element list \<Rightarrow> int \<Rightarrow> string list" where
  "query_unique_elements rows device_id =
     sort (map snd (filter (\<lambda>(d, p). d = device_id) (get_unique_elements_all rows)))"

text \<open>
  The cursor holds the rows not yet fetched. \<^verbatim>\<open>fetch\<close> is \<^verbatim>\<open>fetchall\<close> when
  \<open>chunk_size \<le> 0\<close> and \<^verbatim>\<open>fetchmany(chunk_size)\<close> otherwise.
\<close>

definition fetch :: "int \<Rightarrow> 'a list \<Rightarrow> 'a list \<times> 'a list" where
  "fetch chunk_size cursor =
     (if chunk_size \<le> 0 then (cursor, [])
      else (take (nat chunk_size) cursor, drop (nat chunk_size) cursor))"

text \<open>The generator's loop; its result is the sequence it yields.\<close>

function fetch_loop :: "int \<Rightarrow> 'a list \<Rightarrow> 'a list" where
  "fetch_loop chunk_size cursor =
     (let (result_set, cursor') = fetch chunk_size cursor
      in if result_set = [] then [] else result_set @ fetch_loop chunk_size cursor')"
  by pat_completeness auto
termination
  by (relation "measure (\<lambda>(n, cursor). length cursor)")
     (auto simp: fetch_def split: if_splits)

declare fetch_loop.simps [simp del]

text \<open>
  The commit that \<^verbatim>\<open>get_uniques_for_device\<close> makes first: when it raises, nothing
  is committed and the transaction stays as it is.
\<close>

definition try_commit :: "sqlite3_data_store \<Rightarrow> connection \<Rightarrow> exn + sqlite3_data_store" where
  "try_commit self con =
     (if commit_raises self then Inl OperationalError else Inr (commit self con))"

text \<open>
  \<^verbatim>\<open>get_uniques_for_device\<close>: the commit in its \<^verbatim>\<open>try\<close> statement, whose handler
  \<^verbatim>\<open>except OperationalError: pass\<close> ignores an \<^verbatim>\<open>OperationalError\<close> and lets any
  other exception pass; then the query on the connection and the fetch loop. The
  result is the yielded paths and the store.
\<close>

definition get_uniques_for_device ::
  "sqlite3_data_store \<Rightarrow> int \<Rightarrow> int \<Rightarrow> exn + (string list \<times> sqlite3_data_store)" where
  "get_uniques_for_device self device_id chunk_size =
     (case db_connection self of
        None \<Rightarrow> Inl AttributeError
      | Some con \<Rightarrow>
          (case (case try_commit self con of
                   Inl err \<Rightarrow> if err = OperationalError then Inr self else Inl err
                 | Inr committed \<Rightarrow> Inr committed) of
             Inl err \<Rightarrow> Inl err
           | Inr self1 \<Rightarrow>
               let cursor = query_unique_elements (visible_rows self1) device_id
               in Inr (fetch_loop chunk_size cursor, self1)))"

text \<open>A sequence of \<^verbatim>\<open>store_entry\<close> calls; it ends at the first one that raises.\<close>

fun store_entries :: "sqlite3_data_store \<Rightarrow> element list \<Rightarrow> exn + sqlite3_data_store" where
  "store_entries self [] = Inr self"
| "store_entries self (entry # entries) =
     (case store_entry self entry of
        Inl err \<Rightarrow> Inl err
      | Inr self' \<Rightarrow> store_entries self' entries)"

section \<open>The environment\<close>

text \<open>
  What the program reads from its platform, as functions fixed for a run:
  \<^verbatim>\<open>platform.system()\<close>; \<^verbatim>\<open>os.walk(top)\<close> as the list of its
  \<open>(dir_path, filename_list)\<close> pairs; \<^verbatim>\<open>path.isfile\<close> and \<^verbatim>\<open>path.abspath\<close>;
  \<^verbatim>\<open>open(name, "rb")\<close> as the contents of the file, \<open>None\<close> when it raises; the
  output of \<^verbatim>\<open>df -h path\<close>, \<open>None\<close> when \<^verbatim>\<open>check_output\<close> raises; the first line
  that the shell command of \<^verbatim>\<open>get_slack_block\<close> prints, \<open>None\<close> when it prints
  nothing; hashlib's digests; and the formatted \<^verbatim>\<open>datetime.today()\<close>.
\<close>

record os_env =
  platform_system :: string
  os_walk :: "string \<Rightarrow> (string \<times> string list) list"
  os_path_isfile :: "string \<Rightarrow> bool"
  os_path_abspath :: "string \<Rightarrow> string"
  open_rb :: "string \<Rightarrow> bytes option"
  df_output :: "string \<Rightarrow> string option"
  popen_first_line :: "string \<Rightarrow> string option"
  hexdigest :: "hash_algo \<Rightarrow> bytes \<Rightarrow> string"
  datetime_today :: string

section \<open>Python string operations\<close>

text \<open>\<^verbatim>\<open>s.split(sep)\<close> for a separator of one character.\<close>

fun split_on :: "char \<Rightarrow> string \<Rightarrow> string list" where
  "split_on sep [] = [] # []"
| "split_on sep (c # cs) =
     (if c = sep then [] # split_on sep cs
      else (case split_on sep cs of
              [] \<Rightarrow> [c] # []
            | w # ws \<Rightarrow> (c # w) # ws))"

definition startswith :: "string \<Rightarrow> string \<Rightarrow> bool" where
  "startswith s pre = (take (length pre) s = pre)"

text \<open>\<^verbatim>\<open>s.partition(" ")[0]\<close>: the part before the first space.\<close>

definition partition_head :: "string \<Rightarrow> string" where
  "partition_head s = takeWhile (\<lambda>c. c \<noteq> CHR '' '') s"

fun parse_digits :: "nat \<Rightarrow> string \<Rightarrow> nat option" where
  "parse_digits acc [] = Some acc"
| "parse_digits acc (c # cs) =
     (if CHR ''0'' \<le> c \<and> c \<le> CHR ''9''
      then parse_digits (10 * acc + (of_char c - of_char CHR ''0'')) cs
      else None)"

text \<open>
  \<^verbatim>\<open>int(x)\<close> on a string: an optional sign and decimal digits; anything else raises
  \<^verbatim>\<open>ValueError\<close> (\<open>None\<close>).
\<close>

definition py_int :: "string \<Rightarrow> int option" where
  "py_int x =
     (case x of
        [] \<Rightarrow> None
      | c # cs \<Rightarrow>
          if c = CHR ''-'' then (if cs = [] then None
                                 else map_option (\<lambda>n. - int n) (parse_digits 0 cs))
          else if c = CHR ''+'' then (if cs = [] then None
                                      else map_option int (parse_digits 0 cs))
          else map_option int (parse_digits 0 x))"

text \<open>\<^verbatim>\<open>re.sub('\"', '', path_string)\<close>.\<close>

definition remove_quotes :: "string \<Rightarrow> string" where
  "remove_quotes path_string = filter (\<lambda>c. c \<noteq> CHR 0x22) path_string"

text \<open>\<^verbatim>\<open>posixpath.join\<close> of two components.\<close>

definition path_join :: "string \<Rightarrow> string \<Rightarrow> string" where
  "path_join a b =
     (if startswith b ''/'' then b
      else if a = [] \<or> last a = CHR ''/'' then a @ b
      else a @ ''/'' @ b)"

section \<open>The slack reader (\<^verbatim>\<open>core/newcore.py\<close>)\<close>

text \<open>
  The functions of the slack reader touch no shared state: they return what they log
  (level and format string of each \<^verbatim>\<open>logger\<close> call, in order) beside their result.
  A device loop is \<open>None\<close> for Python's \<^verbatim>\<open>None\<close>.
\<close>

definition get_device_loop_linux :: "os_env \<Rightarrow> string \<Rightarrow> exn + string option" where
  "get_device_loop_linux env device_path =
     (case df_output env device_path of
        None \<Rightarrow> Inl CalledProcessError
      | Some subprocess_out \<Rightarrow>
          Inr (foldl (\<lambda>mnt_dev line.
                        if startswith line ''/'' then Some (partition_head line) else mnt_dev)
                 None (split_on (CHR 0x0A) subprocess_out)))"

text \<open>
  \<^verbatim>\<open>get_slack_block\<close>: the command is built from the path and the device loop
  (a \<^verbatim>\<open>TypeError\<close> when the loop is \<^verbatim>\<open>None\<close>), its first output line is read
  (\<^verbatim>\<open>StopIteration\<close> when there is none) and the last token without a newline is
  converted (\<^verbatim>\<open>ValueError\<close> when a token is no number). No handler surrounds any of
  these steps. The model follows Python 2, where the file object of the pipe has
  \<^verbatim>\<open>next()\<close>.
\<close>

fun last_block :: "int \<Rightarrow> string list \<Rightarrow> exn + int" where
  "last_block blocks [] = Inr blocks"
| "last_block blocks (x # xs) =
     (if CHR 0x0A \<notin> set x
      then (case py_int x of None \<Rightarrow> Inl ValueError | Some n \<Rightarrow> last_block n xs)
      else last_block blocks xs)"

definition get_slack_block ::
  "os_env \<Rightarrow> string \<Rightarrow> string option \<Rightarrow> log_record list \<times> (exn + int)" where
  "get_slack_block env file_path device_loop =
     (case device_loop of
        None \<Rightarrow> ([], Inl TypeError)
      | Some loop \<Rightarrow>
          let cmd = ''debugfs -R '' @ [CHR 0x22] @ ''blocks '' @ file_path @ [CHR 0x22]
                      @ '' '' @ loop
          in (case popen_first_line env cmd of
                None \<Rightarrow> ([(DEBUG, ''Execute command: {}'')], Inl StopIteration)
              | Some line \<Rightarrow>
                  ([(DEBUG, ''Execute command: {}'')],
                   last_block 0 (split_on CHR '' '' line))))"

text \<open>
  \<^verbatim>\<open>read_slack\<close>: the \<^verbatim>\<open>try\<close> block opens the device loop, seeks and reads;
  every exception in it is logged at error level and the empty \<open>file_slack\<close> is
  returned.
\<close>

definition read_slack ::
  "os_env \<Rightarrow> string option \<Rightarrow> int \<Rightarrow> int \<Rightarrow> log_record list \<times> bytes" where
  "read_slack env device_loop block_space block_size =
     (if block_size \<le> 0 then ([], [])
      else
        let start = block_space * block_size;
            log1 = [(DEBUG, ''read_slack({},{},{}), start:{}'')];
            failed = [(ERROR, ''Encountered an error while reading file slack: {}'')]
        in (case (case device_loop of None \<Rightarrow> None | Some loop \<Rightarrow> open_rb env loop) of
              None \<Rightarrow> (log1 @ failed, [])
            | Some device_bytes \<Rightarrow>
                let log2 = log1 @ [(DEBUG, ''Accessing Loop[{}] to read slack [{}-{}].'')]
                in if start < 0 then (log2 @ failed, [])
                   else (log2, take (nat block_size) (drop (nat start) device_bytes))))"

definition read_file_slack ::
  "os_env \<Rightarrow> string option \<Rightarrow> string \<Rightarrow> int \<Rightarrow> log_record list \<times> (exn + bytes)" where
  "read_file_slack env device_loop file_path slack_size =
     (if slack_size \<le> 0 then ([], Inr [])
      else
        (case get_slack_block env file_path device_loop of
           (log1, Inl err) \<Rightarrow> (log1, Inl err)
         | (log1, Inr blocks) \<Rightarrow>
             (case read_slack env device_loop blocks slack_size of
                (log2, file_slack) \<Rightarrow> (log1 @ log2, Inr file_slack))))"

text \<open>
  \<^verbatim>\<open>assign_get_device_loop\<close> and \<^verbatim>\<open>assign_read_file_slack\<close> choose by platform;
  each logs one debug line. The functions named \<^verbatim>\<open>empty\<close> return \<^verbatim>\<open>""\<close> and
  \<^verbatim>\<open>bytes()\<close>.
\<close>

definition assign_get_device_loop ::
  "os_env \<Rightarrow> log_record \<times> (string \<Rightarrow> exn + string option)" where
  "assign_get_device_loop env =
     (if platform_system env = ''Windows''
      then ((DEBUG, ''Assigned DeviceLoop function for 'Windows'.''), \<lambda>value. Inr (Some []))
      else if platform_system env = ''Linux''
      then ((DEBUG, ''Assigned DeviceLoop function for 'Linux'.''), get_device_loop_linux env)
      else ((DEBUG, ''Assigned DeviceLoop fallback function for unsupported.''),
            \<lambda>value. Inr (Some [])))"

definition assign_read_file_slack ::
  "os_env \<Rightarrow> log_record \<times>
     (string option \<Rightarrow> string \<Rightarrow> int \<Rightarrow> log_record list \<times> (exn + bytes))" where
  "assign_read_file_slack env =
     (if platform_system env = ''Windows''
      then ((DEBUG, ''Assigned ReadFileSlack function for 'Windows'.''),
            \<lambda>value1 value2 value3. ([], Inr []))
      else if platform_system env = ''Linux''
      then ((DEBUG, ''Assigned ReadFileSlack function for 'Linux'.''), read_file_slack env)
      else ((DEBUG, ''Assigned ReadFileSlack fallback function: unsupported.''),
            \<lambda>value1 value2 value3. ([], Inr [])))"

section \<open>Configuration (\<^verbatim>\<open>core/settings.py\<close>)\<close>

record options =
  enable_sha1 :: bool
  enable_sha256 :: bool
  enable_md5 :: bool
  create_archive :: bool
  archive_location :: "string option"
  store_slack_space :: bool
  collect :: bool
  number_threads :: int
  unique_elements_chunk_size :: int
  hash_chunk_size :: int

text \<open>\<^verbatim>\<open>Options.__init__\<close>: the defaults.\<close>

definition options_init :: options where
  "options_init =
     \<lparr>enable_sha1 = False, enable_sha256 = False, enable_md5 = False, create_archive = True,
      archive_location = None, store_slack_space = False, collect = True,
      number_threads = 1, unique_elements_chunk_size = - 1, hash_chunk_size = 65536\<rparr>"

text \<open>
  \<^verbatim>\<open>Devices\<close> is a dict from a device id to the quadruple
  \<open>(device_id, device_name, device_path, cluster_size)\<close>; it is iterated in key order of
  insertion, so it is an association list.
\<close>

type_synonym devices = "(int \<times> (int \<times> string \<times> string \<times> int)) list"

definition map_options_to_digests :: "options \<Rightarrow> hash_pool" where
  "map_options_to_digests opts =
     ((if enable_sha1 opts then Some (new_hash SHA1) else None),
      (if enable_sha256 opts then Some (new_hash SHA256) else None),
      (if enable_md5 opts then Some (new_hash MD5) else None))"

section \<open>Tasks, events and their execution\<close>

text \<open>
  The pipeline acts on its collaborators by calls: on the logger, on the data store and
  on the archiver of a task. The trace of a run records every such call when it is
  made, with the task that made it.
\<close>

datatype origin = Coordinator | Collector int | Archiver int

datatype event =
    Log log_level string
  | Ds_open
  | Ds_close
  | Ds_abort
  | Ds_store_entry element
  | Ds_get_uniques int int
  | Ar_provide "string option" string
  | Ar_store_file string "string option"
  | Ar_close

record world =
  trace :: "(origin \<times> event) list"
  store :: sqlite3_data_store

definition emit :: "origin \<Rightarrow> event \<Rightarrow> world \<Rightarrow> world" where
  "emit who ev w = w\<lparr>trace := trace w @ [(who, ev)]\<rparr>"

text \<open>
  The body of a task (a collector or an archiver) is the sequence of calls it makes;
  what follows \<^verbatim>\<open>get_uniques_for_device\<close> depends on the paths it yields. A task ends
  by returning or by raising.
\<close>

datatype prog =
    Return
  | Raise exn
  | Logger log_level string prog
  | Store_entry element prog
  | Get_uniques int int "string list \<Rightarrow> prog"
  | Provide "string option" string prog
  | Store_file string "string option" prog
  | Archive_close prog

text \<open>A task run on its own, from its first call to its end.\<close>

primrec exec :: "origin \<Rightarrow> prog \<Rightarrow> world \<Rightarrow> world \<times> exn option" where
  "exec who Return w = (w, None)"
| "exec who (Raise err) w = (w, Some err)"
| "exec who (Logger level msg p) w = exec who p (emit who (Log level msg) w)"
| "exec who (Store_entry entry p) w =
     (let w1 = emit who (Ds_store_entry entry) w
      in case store_entry (store w1) entry of
           Inl err \<Rightarrow> (w1, Some err)
         | Inr s \<Rightarrow> exec who p (w1\<lparr>store := s\<rparr>))"
| "exec who (Get_uniques device_id chunk_size k) w =
     (let w1 = emit who (Ds_get_uniques device_id chunk_size) w
      in case get_uniques_for_device (store w1) device_id chunk_size of
           Inl err \<Rightarrow> (w1, Some err)
         | Inr (paths, s) \<Rightarrow> exec who (k paths) (w1\<lparr>store := s\<rparr>))"
| "exec who (Provide location name p) w = exec who p (emit who (Ar_provide location name) w)"
| "exec who (Store_file source alias p) w =
     exec who p (emit who (Ar_store_file source alias) w)"
| "exec who (Archive_close p) w = exec who p (emit who Ar_close w)"

text \<open>One call of a task: the world after it and the rest of the task.\<close>

fun step :: "origin \<Rightarrow> prog \<Rightarrow> world \<Rightarrow> world \<times> prog" where
  "step who Return w = (w, Return)"
| "step who (Raise err) w = (w, Raise err)"
| "step who (Logger level msg p) w = (emit who (Log level msg) w, p)"
| "step who (Store_entry entry p) w =
     (let w1 = emit who (Ds_store_entry entry) w
      in case store_entry (store w1) entry of
           Inl err \<Rightarrow> (w1, Raise err)
         | Inr s \<Rightarrow> (w1\<lparr>store := s\<rparr>, p))"
| "step who (Get_uniques device_id chunk_size k) w =
     (let w1 = emit who (Ds_get_uniques device_id chunk_size) w
      in case get_uniques_for_device (store w1) device_id chunk_size of
           Inl err \<Rightarrow> (w1, Raise err)
         | Inr (paths, s) \<Rightarrow> (w1\<lparr>store := s\<rparr>, k paths))"
| "step who (Provide location name p) w = (emit who (Ar_provide location name) w, p)"
| "step who (Store_file source alias p) w = (emit who (Ar_store_file source alias) w, p)"
| "step who (Archive_close p) w = (emit who Ar_close w, p)"

text \<open>
  \<^verbatim>\<open>multiprocessing.pool.ThreadPool\<close>: the tasks submitted with \<^verbatim>\<open>apply_async\<close>
  run interleaved. A schedule says which task makes the next call (an index that names
  no task is skipped); \<^verbatim>\<open>join\<close> returns when every task has ended, so what a schedule
  leaves undone is run to its end. Every interleaving of the tasks' calls is the run of
  some schedule. The result of a task is \<open>None\<close> or the exception it raised.
\<close>

fun run_schedule ::
  "nat list \<Rightarrow> (origin \<times> prog) list \<Rightarrow> world \<Rightarrow> world \<times> (origin \<times> prog) list" where
  "run_schedule [] tasks w = (w, tasks)"
| "run_schedule (i # sched) tasks w =
     (if i < length tasks
      then (case tasks ! i of
              (who, p) \<Rightarrow>
                (case step who p w of
                   (w', p') \<Rightarrow> run_schedule sched (tasks[i := (who, p')]) w'))
      else run_schedule sched tasks w)"

fun join_pool :: "(origin \<times> prog) list \<Rightarrow> world \<Rightarrow> world \<times> exn option list" where
  "join_pool [] w = (w, [])"
| "join_pool ((who, p) # tasks) w =
     (case exec who p w of
        (w1, r) \<Rightarrow> (case join_pool tasks w1 of (w2, rs) \<Rightarrow> (w2, r # rs)))"

definition thread_pool_run ::
  "nat list \<Rightarrow> (origin \<times> prog) list \<Rightarrow> world \<Rightarrow> world \<times> exn option list" where
  "thread_pool_run sched tasks w =
     (case run_schedule sched tasks w of (w1, tasks1) \<Rightarrow> join_pool tasks1 w1)"

text \<open>
  The loop \<^verbatim>\<open>for device_id in devices: async_tasks[device_id].get()\<close> raises the
  exception of the first task that raised one.
\<close>

fun first_exn :: "exn option list \<Rightarrow> exn option" where
  "first_exn [] = None"
| "first_exn (None # rs) = first_exn rs"
| "first_exn (Some err # rs) = Some err"

section \<open>The collector (\<^verbatim>\<open>core/newcore.py\<close>)\<close>

type_synonym slack_func =
  "string option \<Rightarrow> string \<Rightarrow> int \<Rightarrow> log_record list \<times> (exn + bytes)"

fun emit_logs :: "log_record list \<Rightarrow> prog \<Rightarrow> prog" where
  "emit_logs [] p = p"
| "emit_logs ((level, msg) # logs) p = Logger level msg (emit_logs logs p)"

text \<open>
  The paths of the two nested loops over \<^verbatim>\<open>walk(source_path)\<close>, in the order in
  which they are visited.
\<close>

definition walked_paths :: "os_env \<Rightarrow> string \<Rightarrow> string list" where
  "walked_paths env source_path =
     concat (map (\<lambda>(dir_path, filename_list). map (path_join dir_path) filename_list)
                 (os_walk env source_path))"

text \<open>
  The body of the loops for the paths still to visit; \<open>hash_funcs\<close> is the triple
  carried from one file to the next and \<open>k\<close> what follows the loops. No handler
  surrounds \<^verbatim>\<open>calculate_file_hashes\<close>, the slack function or \<^verbatim>\<open>store_entry\<close>.
\<close>

fun collect_files ::
  "os_env \<Rightarrow> int \<Rightarrow> hash_pool \<Rightarrow> slack_func \<Rightarrow> string option \<Rightarrow> int \<Rightarrow> int
     \<Rightarrow> string list \<Rightarrow> hash_pool \<Rightarrow> prog \<Rightarrow> prog" where
  "collect_files env device_id hashlib_functions read_file_slack_func device_loop slack_size
       chunk_size [] hash_funcs k = k"
| "collect_files env device_id hashlib_functions read_file_slack_func device_loop slack_size
       chunk_size (absolute_path # paths) hash_funcs k =
     (if os_path_isfile env absolute_path then
        Logger DEBUG ''Processing: {}''
          (case calculate_file_hashes (hexdigest env) (open_rb env absolute_path) hash_funcs
                  chunk_size of
             Inl err \<Rightarrow> Raise err
           | Inr (hash_sha1, hash_sha256, hash_md5) \<Rightarrow>
               (case read_file_slack_func device_loop absolute_path slack_size of
                  (logs, Inl err) \<Rightarrow> emit_logs logs (Raise err)
                | (logs, Inr file_slack) \<Rightarrow>
                    emit_logs logs
                      (Store_entry
                         \<lparr>e_sha1 = hash_sha1, e_sha256 = hash_sha256, e_md5 = hash_md5,
                          e_device_id = device_id, e_file_path = absolute_path,
                          e_file_slack = Some file_slack\<rparr>
                         (collect_files env device_id hashlib_functions read_file_slack_func
                            device_loop slack_size chunk_size paths
                            (refresh_hash_pool hashlib_functions) k))))
      else collect_files env device_id hashlib_functions read_file_slack_func device_loop
             slack_size chunk_size paths hash_funcs k)"

text \<open>
  \<^verbatim>\<open>collector\<close>. (\<^verbatim>\<open>get_raw_drive\<close> is called for a value that is not used.)
\<close>

definition collector ::
  "os_env \<Rightarrow> int \<Rightarrow> string \<Rightarrow> hash_pool \<Rightarrow> (string \<Rightarrow> exn + string option) \<Rightarrow> slack_func
     \<Rightarrow> int \<Rightarrow> int \<Rightarrow> prog" where
  "collector env device_id source_path hashlib_functions get_device_loop_func
       read_file_slack_func slack_size chunk_size =
     Logger INFO ''Device {}: collector \"{}\"''
       (case get_device_loop_func source_path of
          Inl err \<Rightarrow> Raise err
        | Inr device_loop \<Rightarrow>
            collect_files env device_id hashlib_functions read_file_slack_func device_loop
              slack_size chunk_size (walked_paths env source_path) hashlib_functions
              (Logger INFO ''Device {}: collector completed.'' Return))"

section \<open>The archiver (\<^verbatim>\<open>impl/ziparchiveprovider.py\<close>, \<^verbatim>\<open>core/newcore.py\<close>)\<close>

text \<open>
  \<^verbatim>\<open>ZipArchiver\<close>: \<open>zip_file_ptr\<close> is \<open>None\<close> or the name of the archive file
  (creating the file is taken to succeed when a location is given).
  \<^verbatim>\<open>ZipFile.write\<close> reads the source file and raises when it cannot be opened.
\<close>

record zip_archiver =
  zip_file_ptr :: "string option"

definition zip_provide :: "zip_archiver \<Rightarrow> string option \<Rightarrow> string \<Rightarrow> exn + zip_archiver" where
  "zip_provide self location filename =
     (if zip_file_ptr self = None then
        (case location of
           None \<Rightarrow> Inl TypeError
         | Some dir \<Rightarrow> Inr (self\<lparr>zip_file_ptr := Some (path_join dir filename @ ''.zip'')\<rparr>))
      else Inl RuntimeError)"

definition zip_store_file ::
  "os_env \<Rightarrow> zip_archiver \<Rightarrow> string \<Rightarrow> string option \<Rightarrow> exn + zip_archiver" where
  "zip_store_file env self source alias =
     (if zip_file_ptr self \<noteq> None then
        (case open_rb env source of None \<Rightarrow> Inl IOError | Some contents \<Rightarrow> Inr self)
      else Inl RuntimeWarning)"

definition zip_close :: "zip_archiver \<Rightarrow> exn + zip_archiver" where
  "zip_close self = (if zip_file_ptr self \<noteq> None then Inr self else Inl RuntimeWarning)"

fun str_nat :: "nat \<Rightarrow> string" where
  "str_nat n =
     (if n < 10 then [char_of (48 + n)] else str_nat (n div 10) @ [char_of (48 + n mod 10)])"

declare str_nat.simps [simp del]

definition str_int :: "int \<Rightarrow> string" where
  "str_int i = (if i < 0 then CHR ''-'' # str_nat (nat (- i)) else str_nat (nat i))"

text \<open>
  The loop of \<^verbatim>\<open>archiver\<close> over the yielded paths: the alias of a path is
  \<^verbatim>\<open>path.abspath(target_path)[con_src + 1:]\<close>.
\<close>

fun archive_files ::
  "os_env \<Rightarrow> zip_archiver \<Rightarrow> nat \<Rightarrow> string list \<Rightarrow> (zip_archiver \<Rightarrow> prog) \<Rightarrow> prog" where
  "archive_files env archive_service con_src [] k = k archive_service"
| "archive_files env archive_service con_src (target_path # targets) k =
     Logger DEBUG ''Archiving: {}''
       (let alias = drop (con_src + 1) (os_path_abspath env target_path)
        in Store_file target_path (Some alias)
             (case zip_store_file env archive_service target_path (Some alias) of
                Inl err \<Rightarrow> Raise err
              | Inr archive_service' \<Rightarrow> archive_files env archive_service' con_src targets k))"

text \<open>\<^verbatim>\<open>archiver\<close>, on its own copy of the archive service.\<close>

definition archiver ::
  "os_env \<Rightarrow> int \<Rightarrow> zip_archiver \<Rightarrow> options \<Rightarrow> string \<Rightarrow> prog" where
  "archiver env device_id archive_service opts device_sourcepath =
     (let archive_name = ''archive-'' @ str_int device_id @ ''-'' @ datetime_today env
      in Logger INFO ''Device {}: archive \"{}\"''
           (Provide (archive_location opts) archive_name
              (case zip_provide archive_service (archive_location opts) archive_name of
                 Inl err \<Rightarrow> Raise err
               | Inr provided \<Rightarrow>
                   (let con_src = length device_sourcepath
                    in Get_uniques device_id (unique_elements_chunk_size opts)
                         (\<lambda>targets.
                            archive_files env provided con_src targets
                              (\<lambda>filled.
                                 Archive_close
                                   (case zip_close filled of
                                      Inl err \<Rightarrow> Raise err
                                    | Inr closed \<Rightarrow>
                                        Logger INFO ''Device {}: archive completed.''
                                          Return)))))))"

section \<open>The pipeline coordinator (\<^verbatim>\<open>core/newcore.py\<close>)\<close>

definition open_store :: "world \<Rightarrow> world \<times> exn option" where
  "open_store w =
     (let w1 = emit Coordinator Ds_open w
      in case ds_open (store w1) of
           Inl err \<Rightarrow> (w1, Some err)
         | Inr s \<Rightarrow> (w1\<lparr>store := s\<rparr>, None))"

definition close_store :: "world \<Rightarrow> world \<times> exn option" where
  "close_store w =
     (let w1 = emit Coordinator Ds_close w
      in case ds_close (store w1) of
           Inl err \<Rightarrow> (w1, Some err)
         | Inr s \<Rightarrow> (w1\<lparr>store := s\<rparr>, None))"

definition collector_task ::
  "os_env \<Rightarrow> options \<Rightarrow> (string \<Rightarrow> exn + string option) \<Rightarrow> slack_func
     \<Rightarrow> int \<times> (int \<times> string \<times> string \<times> int) \<Rightarrow> origin \<times> prog" where
  "collector_task env opts get_device_loop_func read_file_slack_func dev =
     (case dev of
        (device_id, (uu, device_name, device_path, cluster_size)) \<Rightarrow>
          (Collector device_id,
           collector env device_id (os_path_abspath env (remove_quotes device_path))
             (map_options_to_digests opts) get_device_loop_func read_file_slack_func
             cluster_size (hash_chunk_size opts)))"

definition archiver_task ::
  "os_env \<Rightarrow> zip_archiver \<Rightarrow> options \<Rightarrow> int \<times> (int \<times> string \<times> string \<times> int)
     \<Rightarrow> origin \<times> prog" where
  "archiver_task env archive_service opts dev =
     (case dev of
        (device_id, (uu, device_name, device_path, cluster_size)) \<Rightarrow>
          (Archiver device_id,
           archiver env device_id archive_service opts
             (os_path_abspath env (remove_quotes device_path))))"

text \<open>
  \<^verbatim>\<open>deduplication_pipeline\<close>, with the schedules of its two thread pools.
  \<^verbatim>\<open>ThreadPool(processes=n)\<close> raises when \<open>n < 1\<close>. The function has no
  \<^verbatim>\<open>try\<close> statement: an exception ends it where it is raised.
\<close>

definition pool_phase ::
  "nat list \<Rightarrow> options \<Rightarrow> (origin \<times> prog) list \<Rightarrow> world \<Rightarrow> world \<times> exn option" where
  "pool_phase sched opts tasks w =
     (if number_threads opts < 1 then (w, Some ValueError)
      else (case thread_pool_run sched tasks w of (w1, results) \<Rightarrow> (w1, first_exn results)))"

definition collect_phase ::
  "nat list \<Rightarrow> os_env \<Rightarrow> options \<Rightarrow> devices \<Rightarrow> world \<Rightarrow> world \<times> exn option" where
  "collect_phase sched env opts devs w =
     (if number_threads opts < 1 then (w, Some ValueError)
      else
        (case assign_get_device_loop env of
           (log1, get_device_loop_func) \<Rightarrow>
             (case assign_read_file_slack env of
                (log2, read_file_slack_func) \<Rightarrow>
                  (let w1 = emit Coordinator (Log (fst log1) (snd log1)) w;
                       w2 = emit Coordinator (Log (fst log2) (snd log2)) w1
                   in pool_phase sched opts
                        (map (collector_task env opts get_device_loop_func
                                read_file_slack_func) devs) w2))))"

definition archive_phase ::
  "nat list \<Rightarrow> os_env \<Rightarrow> zip_archiver \<Rightarrow> options \<Rightarrow> devices \<Rightarrow> world
     \<Rightarrow> world \<times> exn option" where
  "archive_phase sched env archive_service opts devs w =
     pool_phase sched opts (map (archiver_task env archive_service opts) devs) w"

definition deduplication_pipeline ::
  "nat list \<Rightarrow> nat list \<Rightarrow> os_env \<Rightarrow> zip_archiver \<Rightarrow> options \<Rightarrow> devices \<Rightarrow> world
     \<Rightarrow> world \<times> exn option" where
  "deduplication_pipeline sched1 sched2 env archive_service opts devs w =
     (case open_store w of
        (w1, Some err) \<Rightarrow> (w1, Some err)
      | (w1, None) \<Rightarrow>
          (case (if collect opts then collect_phase sched1 env opts devs w1 else (w1, None)) of
             (w2, Some err) \<Rightarrow> (w2, Some err)
           | (w2, None) \<Rightarrow>
               (case (if create_archive opts
                      then archive_phase sched2 env archive_service opts devs w2
                      else (w2, None)) of
                  (w3, Some err) \<Rightarrow> (w3, Some err)
                | (w3, None) \<Rightarrow> close_store w3)))"

text \<open>A loop that runs one task after the other and ends at the first exception.\<close>

fun run_tasks :: "(origin \<times> prog) list \<Rightarrow> world \<Rightarrow> world \<times> exn option" where
  "run_tasks [] w = (w, None)"
| "run_tasks ((who, p) # tasks) w =
     (case exec who p w of
        (w1, Some err) \<Rightarrow> (w1, Some err)
      | (w1, None) \<Rightarrow> run_tasks tasks w1)"

text \<open>
  \<^verbatim>\<open>deduplication_pipeline_single\<close>: it reads neither \<^verbatim>\<open>options.collect\<close> nor
  \<^verbatim>\<open>options.create_archive\<close>, and has no \<^verbatim>\<open>try\<close> statement either.
\<close>

definition deduplication_pipeline_single ::
  "os_env \<Rightarrow> zip_archiver \<Rightarrow> options \<Rightarrow> devices \<Rightarrow> world \<Rightarrow> world \<times> exn option" where
  "deduplication_pipeline_single env archive_service opts devs w =
     (case assign_get_device_loop env of
        (log1, get_device_loop_func) \<Rightarrow>
          (case assign_read_file_slack env of
             (log2, read_file_slack_func) \<Rightarrow>
               (let w01 = emit Coordinator (Log (fst log1) (snd log1)) w;
                    w02 = emit Coordinator (Log (fst log2) (snd log2)) w01
                in case open_store w02 of
                     (w1, Some err) \<Rightarrow> (w1, Some err)
                   | (w1, None) \<Rightarrow>
                       (case run_tasks (map (collector_task env opts get_device_loop_func
                                               read_file_slack_func) devs) w1 of
                          (w2, Some err) \<Rightarrow> (w2, Some err)
                        | (w2, None) \<Rightarrow>
                            (case run_tasks (map (archiver_task env archive_service opts) devs)
                                    w2 of
                               (w3, Some err) \<Rightarrow> (w3, Some err)
                             | (w3, None) \<Rightarrow> close_store w3)))))"

section \<open>Reading a trace\<close>

text \<open>
  The calls of a trace by kind: the entries passed to \<^verbatim>\<open>store_entry\<close>, the formats
  logged at error level, the \<open>(source, alias)\<close> pairs passed to \<^verbatim>\<open>store_file\<close>, and
  the \<^verbatim>\<open>open\<close>, \<^verbatim>\<open>close\<close> and \<^verbatim>\<open>abort\<close> calls on the data store.
\<close>

fun stored_entries :: "(origin \<times> event) list \<Rightarrow> element list" where
  "stored_entries [] = []"
| "stored_entries ((who, Ds_store_entry entry) # t) = entry # stored_entries t"
| "stored_entries (x # t) = stored_entries t"

fun error_records :: "(origin \<times> event) list \<Rightarrow> string list" where
  "error_records [] = []"
| "error_records ((who, Log ERROR msg) # t) = msg # error_records t"
| "error_records (x # t) = error_records t"

fun store_file_calls :: "(origin \<times> event) list \<Rightarrow> (string \<times> string option) list" where
  "store_file_calls [] = []"
| "store_file_calls ((who, Ar_store_file source alias) # t) = (source, alias) # store_file_calls t"
| "store_file_calls (x # t) = store_file_calls t"

fun lifecycle_calls :: "(origin \<times> event) list \<Rightarrow> event list" where
  "lifecycle_calls [] = []"
| "lifecycle_calls ((who, Ds_open) # t) = Ds_open # lifecycle_calls t"
| "lifecycle_calls ((who, Ds_close) # t) = Ds_close # lifecycle_calls t"
| "lifecycle_calls ((who, Ds_abort) # t) = Ds_abort # lifecycle_calls t"
| "lifecycle_calls (x # t) = lifecycle_calls t"

text \<open>
  An event of the collect phase is one made by a collector, or a \<^verbatim>\<open>store_entry\<close>
  call; an event of the archive phase is one made by an archiver, or a call of the
  uniques query or on an archive service.
\<close>

fun collect_op :: "origin \<times> event \<Rightarrow> bool" where
  "collect_op (Collector d, ev) = True"
| "collect_op (who, Ds_store_entry entry) = True"
| "collect_op x = False"

fun archive_op :: "origin \<times> event \<Rightarrow> bool" where
  "archive_op (Archiver d, ev) = True"
| "archive_op (who, Ds_get_uniques device_id chunk_size) = True"
| "archive_op (who, Ar_provide location name) = True"
| "archive_op (who, Ar_store_file source alias) = True"
| "archive_op (who, Ar_close) = True"
| "archive_op x = False"

text \<open>The phases are not interleaved: no collect event follows an archive event.\<close>

fun collect_before_archive :: "(origin \<times> event) list \<Rightarrow> bool" where
  "collect_before_archive [] = True"
| "collect_before_archive (x # t) =
     (if archive_op x then list_all (\<lambda>y. \<not> collect_op y) (x # t)
      else collect_before_archive t)"

text \<open>
  Properties of single events: a call that opens, closes or aborts the store; a
  \<^verbatim>\<open>store_entry\<close> call, if any, with an empty slack; a \<^verbatim>\<open>store_file\<close> call, if
  any, with the alias \<^verbatim>\<open>path.abspath(source)[len(device_sourcepath) + 1:]\<close>.
\<close>

fun lifecycle :: "origin \<times> event \<Rightarrow> bool" where
  "lifecycle (who, Ds_open) = True"
| "lifecycle (who, Ds_close) = True"
| "lifecycle (who, Ds_abort) = True"
| "lifecycle x = False"

fun empty_slack :: "origin \<times> event \<Rightarrow> bool" where
  "empty_slack (who, Ds_store_entry entry) = (e_file_slack entry = Some [])"
| "empty_slack x = True"

fun alias_rule :: "os_env \<Rightarrow> string \<Rightarrow> origin \<times> event \<Rightarrow> bool" where
  "alias_rule env device_sourcepath (who, Ar_store_file source alias) =
     (alias = Some (drop (length device_sourcepath + 1) (os_path_abspath env source)))"
| "alias_rule env device_sourcepath x = True"

section \<open>What a task can do\<close>

text \<open>
  \<open>confined Q who p\<close>: every call that the task body \<open>p\<close> can make for \<open>who\<close>
  satisfies \<open>Q\<close>. \<open>extends Q w w'\<close>: the trace of \<open>w'\<close> is the trace of \<open>w\<close>
  followed by events that satisfy \<open>Q\<close>.
\<close>

primrec confined :: "(origin \<times> event \<Rightarrow> bool) \<Rightarrow> origin \<Rightarrow> prog \<Rightarrow> bool" where
  "confined Q who Return = True"
| "confined Q who (Raise err) = True"
| "confined Q who (Logger level msg p) = (Q (who, Log level msg) \<and> confined Q who p)"
| "confined Q who (Store_entry entry p) = (Q (who, Ds_store_entry entry) \<and> confined Q who p)"
| "confined Q who (Get_uniques device_id chunk_size k) =
     (Q (who, Ds_get_uniques device_id chunk_size) \<and> (\<forall>paths. confined Q who (k paths)))"
| "confined Q who (Provide location name p) =
     (Q (who, Ar_provide location name) \<and> confined Q who p)"
| "confined Q who (Store_file source alias p) =
     (Q (who, Ar_store_file source alias) \<and> confined Q who p)"
| "confined Q who (Archive_close p) = (Q (who, Ar_close) \<and> confined Q who p)"

definition extends :: "(origin \<times> event \<Rightarrow> bool) \<Rightarrow> world \<Rightarrow> world \<Rightarrow> bool" where
  "extends Q w w' = (\<exists>es. trace w' = trace w @ es \<and> (\<forall>x \<in> set es. Q x))"

section \<open>Example data\<close>

definition example_entry :: "string \<Rightarrow> int \<Rightarrow> string \<Rightarrow> element" where
  "example_entry digest device_id file_path =
     \<lparr>e_sha1 = Some digest, e_sha256 = None, e_md5 = None, e_device_id = device_id,
      e_file_path = file_path, e_file_slack = Some []\<rparr>"

definition example_rows :: "element list" where
  "example_rows =
     [example_entry ''aaf4'' 1 ''/mnt/sd/b.txt'',
      example_entry ''0beec'' 1 ''/mnt/sd/c/d.txt'',
      example_entry ''aaf4'' 2 ''/mnt/usb/y'',
      example_entry ''aaf4'' 1 ''/mnt/sd/a.txt'']"

text \<open>An open store on an empty table without constraints, threshold 1000.\<close>

definition example_store :: sqlite3_data_store where
  "example_store =
     (sqlite3_data_store_init True [] (\<lambda>rows e. True) False False False 1000)
       \<lparr>db_connection := Some \<lparr>pending = [], in_transaction = True\<rparr>\<rparr>"

text \<open>
  The same store after the four example rows were stored, all still pending, on a
  database whose commit raises.
\<close>

definition locked_store :: sqlite3_data_store where
  "locked_store =
     example_store\<lparr>commit_raises := True,
                   db_connection := Some \<lparr>pending = example_rows, in_transaction = True\<rparr>,
                   current_data_runner := 4\<rparr>"

text \<open>
  A Linux host with two mounted devices: \<^verbatim>\<open>/mnt/sd\<close> holds \<^verbatim>\<open>b.txt\<close> and
  \<^verbatim>\<open>a.txt\<close> with equal contents, visited in this order, \<^verbatim>\<open>/mnt/usb\<close> holds
  \<^verbatim>\<open>y\<close>. The block device is \<^verbatim>\<open>/dev/loop0\<close>, and the block query prints block 1.
  The digest of the examples is one \<^verbatim>\<open>x\<close> per byte.
\<close>

definition example_env :: os_env where
  "example_env =
     \<lparr>platform_system = ''Linux'',
      os_walk = (\<lambda>top. if top = ''/mnt/sd'' then [(''/mnt/sd'', [''b.txt'', ''a.txt''])]
                       else if top = ''/mnt/usb'' then [(''/mnt/usb'', [''y''])]
                       else []),
      os_path_isfile = (\<lambda>p. True),
      os_path_abspath = (\<lambda>p. p),
      open_rb = (\<lambda>p. if p = ''/dev/loop0'' then Some [1, 2, 3, 4, 5, 6, 7, 8, 9]
                      else if p = ''/mnt/sd/a.txt'' \<or> p = ''/mnt/sd/b.txt'' then Some [104, 105]
                      else if p = ''/mnt/usb/y'' then Some [104, 105, 33]
                      else None),
      df_output = (\<lambda>p. Some (''Filesystem Size'' @ [CHR 0x0A] @ ''/dev/loop0 1.0G''
                               @ [CHR 0x0A])),
      popen_first_line = (\<lambda>cmd. Some (''1 '' @ [CHR 0x0A])),
      hexdigest = (\<lambda>a m. map (\<lambda>b. CHR ''x'') m),
      datetime_today = ''2016-12-01-10-00-00''\<rparr>"

text \<open>A table that rejects a row equal to one it holds.\<close>

definition reject_equal_rows :: "element list \<Rightarrow> element \<Rightarrow> bool" where
  "reject_equal_rows rows entry = (entry \<notin> set rows)"

text \<open>The defaults of \<^verbatim>\<open>Options\<close> (so \<open>store_slack_space\<close> is off), with SHA-1.\<close>

definition example_options :: options where
  "example_options = options_init\<lparr>enable_sha1 := True, archive_location := Some ''/out''\<rparr>"

definition example_devices :: devices where
  "example_devices =
     [(1, (1, ''SDCard'', [CHR 0x22] @ ''/mnt/sd'' @ [CHR 0x22], 4)),
      (2, (2, ''Stick'', [CHR 0x22] @ ''/mnt/usb'' @ [CHR 0x22], 0))]"

definition example_world :: world where
  "example_world =
     \<lparr>trace = [],
      store = sqlite3_data_store_init True [] (\<lambda>rows e. True) False False False 1000\<rparr>"

text \<open>The same host where \<^verbatim>\<open>/mnt/sd/b.txt\<close> cannot be opened.\<close>

definition unreadable_env :: os_env where
  "unreadable_env =
     example_env\<lparr>open_rb := (\<lambda>p. if p = ''/mnt/sd/b.txt'' then None
                                    else open_rb example_env p)\<rparr>"

text \<open>The same host where the block query prints nothing.\<close>

definition silent_env :: os_env where
  "silent_env = example_env\<lparr>popen_first_line := (\<lambda>cmd. None)\<rparr>"

text \<open>A host whose device is mounted at the root of the file system.\<close>

definition root_env :: os_env where
  "root_env =
     example_env\<lparr>os_walk := (\<lambda>top. if top = ''/'' then [(''/'', [''vmlinuz'']),
                                                           (''/etc'', [''passwd''])]
                                      else []),
                 open_rb := (\<lambda>p. if p = ''/vmlinuz'' then Some [1]
                                  else if p = ''/etc/passwd'' then Some [2, 3]
                                  else None)\<rparr>"

definition root_devices :: devices where
  "root_devices = [(1, (1, ''Root'', [CHR 0x22] @ ''/'' @ [CHR 0x22], 0))]"

section \<open>Chunk-size irrelevance\<close>

lemma update_hashes_Nil: "update_hashes hashes [] = hashes"
  by (cases hashes) (auto simp: update_hash_def hash_update_def split: option.splits)

lemma update_hashes_append:
  "update_hashes (update_hashes hashes xs) ys = update_hashes hashes (xs @ ys)"
  by (cases hashes) (auto simp: update_hash_def hash_update_def split: option.splits)

lemma read_chunks_whole:
  "read_chunk_size \<noteq> 0 \<Longrightarrow>
   read_chunks read_chunk_size hashes rest = update_hashes hashes rest"
proof (induction read_chunk_size hashes rest rule: read_chunks.induct)
  case (1 n hashes rest)
  show ?case
  proof (cases "fst (file_read n rest) = []")
    case True
    with \<open>n \<noteq> 0\<close> have "rest = []"
      by (auto simp: file_read_def split: if_splits)
    then show ?thesis
      by (simp add: read_chunks.simps [of n hashes] file_read_def update_hashes_Nil)
  next
    case False
    obtain chunk rest' where fr: "file_read n rest = (chunk, rest')"
      by (cases "file_read n rest")
    with False have ne: "chunk \<noteq> []" by simp
    have cat: "chunk @ rest' = rest"
      using fr by (auto simp: file_read_def split: if_splits)
    have "read_chunks n hashes rest = read_chunks n (update_hashes hashes chunk) rest'"
      using fr ne by (simp add: read_chunks.simps [of n hashes rest])
    also have "\<dots> = update_hashes (update_hashes hashes chunk) rest'"
      using "1.IH" [OF refl fr [symmetric] ne \<open>n \<noteq> 0\<close>] .
    finally show ?thesis
      by (simp add: update_hashes_append cat)
  qed
qed

text \<open>
  C8. For every file contents and every triple of hash objects, hashing with any two
  positive chunk sizes gives the same digest triple (and the same error when the file
  cannot be opened).
\<close>

theorem calculate_file_hashes_chunk_size:
  assumes "0 < c1" and "0 < c2"
  shows "calculate_file_hashes hx opened hash_functions c1
       = calculate_file_hashes hx opened hash_functions c2"
  using assms by (simp add: calculate_file_hashes_def read_chunks_whole split: option.splits)

theorem calculate_file_hashes_chunk_size_witness:
  "(0::int) < 1 \<and> (0::int) < 65536 \<and>
   calculate_file_hashes (\<lambda>a m. map (\<lambda>b. CHR ''x'') m) (Some [97, 98, 99])
       (Some (new_hash SHA1), None, Some (new_hash MD5)) 1
   = calculate_file_hashes (\<lambda>a m. map (\<lambda>b. CHR ''x'') m) (Some [97, 98, 99])
       (Some (new_hash SHA1), None, Some (new_hash MD5)) 65536"
  using calculate_file_hashes_chunk_size [of 1 65536 "\<lambda>a m. map (\<lambda>b. CHR ''x'') m"
      "Some [97, 98, 99]" "(Some (new_hash SHA1), None, Some (new_hash MD5))"]
  by simp

section \<open>The uniques query\<close>

lemma fetch_loop_all: "fetch_loop chunk_size cursor = cursor"
proof (induction chunk_size cursor rule: fetch_loop.induct)
  case (1 n cursor)
  obtain rs cursor' where f: "fetch n cursor = (rs, cursor')"
    by (cases "fetch n cursor")
  have cat: "rs @ cursor' = cursor"
    using f by (auto simp: fetch_def split: if_splits)
  show ?case
  proof (cases "rs = []")
    case True
    with f have "cursor = []"
      by (auto simp: fetch_def split: if_splits)
    with f True show ?thesis
      by (simp add: fetch_loop.simps [of n "[]"])
  next
    case False
    with f "1.IH" [OF refl f [symmetric] False] cat show ?thesis
      by (simp add: fetch_loop.simps [of n cursor])
  qed
qed

lemma group_paths_nonempty:
  "e \<in> set rows \<Longrightarrow> group_paths rows (e_device_id e) (grouping_key e) \<noteq> []"
  by (auto simp: group_paths_def filter_empty_conv)

lemma set_group_paths:
  "set (group_paths rows d k) =
     e_file_path ` {e \<in> set rows. e_device_id e = d \<and> grouping_key e = k}"
  by (auto simp: group_paths_def)

lemma min_list_in: "xs \<noteq> [] \<Longrightarrow> min_list xs \<in> set (xs::'a::linorder list)"
  by (simp add: min_list_Min)

lemma min_list_le: "x \<in> set xs \<Longrightarrow> min_list xs \<le> (x::'a::linorder)"
  by (cases "xs = []") (auto simp: min_list_Min)

lemma set_query_unique_elements:
  "set (query_unique_elements rows d) =
     (\<lambda>k. min_list (group_paths rows d k)) ` grouping_key ` {e \<in> set rows. e_device_id e = d}"
  by (force simp: query_unique_elements_def get_unique_elements_all_def image_iff)

lemma length_query_unique_elements:
  "length (query_unique_elements rows d) =
     card (grouping_key ` {e \<in> set rows. e_device_id e = d})"
proof -
  let ?ks = "remdups (map (\<lambda>e. (e_device_id e, grouping_key e)) rows)"
  have "length (query_unique_elements rows d) = length (filter (\<lambda>(d', k). d' = d) ?ks)"
    by (simp add: query_unique_elements_def get_unique_elements_all_def filter_map o_def
          case_prod_unfold)
  also have "\<dots> = card (set (filter (\<lambda>(d', k). d' = d) ?ks))"
    by (rule distinct_card [symmetric]) simp
  also have "set (filter (\<lambda>(d', k). d' = d) ?ks) =
      Pair d ` grouping_key ` {e \<in> set rows. e_device_id e = d}"
    by (auto simp: image_iff)
  also have "card \<dots> = card (grouping_key ` {e \<in> set rows. e_device_id e = d})"
    by (rule card_image) (simp add: inj_on_def)
  finally show ?thesis .
qed


lemma visible_rows_commit:
  "db_connection self = Some con \<Longrightarrow> visible_rows (commit self con) = visible_rows self"
  by (simp add: visible_rows_def commit_def)

lemma store_entry_visible:
  assumes "store_entry self entry = Inr self'"
  shows "visible_rows self' = visible_rows self @ [entry] \<and> db_connection self' \<noteq> None"
  using assms
  by (auto simp: store_entry_def visible_rows_def commit_def begin_transaction_def Let_def
           split: option.splits if_splits sum.splits)

lemma store_entries_visible:
  "store_entries self entries = Inr self' \<Longrightarrow> db_connection self \<noteq> None \<Longrightarrow>
   visible_rows self' = visible_rows self @ entries \<and> db_connection self' \<noteq> None"
proof (induction entries arbitrary: self)
  case Nil
  then show ?case by simp
next
  case (Cons entry entries)
  from Cons.prems obtain s1 where s1: "store_entry self entry = Inr s1"
    and rest: "store_entries s1 entries = Inr self'"
    by (auto split: sum.splits)
  from store_entry_visible [OF s1] Cons.IH [OF rest] show ?case by simp
qed

text \<open>
  C1. On an open store, for every device id, \<^verbatim>\<open>get_uniques_for_device\<close> yields a
  sequence of paths in ascending order, with as many paths as the device has
  content-hash groups; every yielded path is the smallest path of the group of one of
  the device's rows, and the smallest path of the group of every row of the device is
  yielded.
\<close>

theorem get_uniques_for_device_representatives:
  assumes "db_connection self = Some con"
  shows "\<exists>paths self'.
     get_uniques_for_device self device_id chunk_size = Inr (paths, self') \<and>
     sorted paths \<and>
     length paths =
       card (grouping_key ` {e \<in> set (visible_rows self). e_device_id e = device_id}) \<and>
     (\<forall>p \<in> set paths. \<exists>e \<in> set (visible_rows self).
        e_device_id e = device_id \<and> e_file_path e = p \<and>
        (\<forall>e' \<in> set (visible_rows self).
           e_device_id e' = device_id \<and> grouping_key e' = grouping_key e
             \<longrightarrow> p \<le> e_file_path e')) \<and>
     (\<forall>e \<in> set (visible_rows self). e_device_id e = device_id \<longrightarrow>
        (\<exists>p \<in> set paths. \<exists>e' \<in> set (visible_rows self).
           e_device_id e' = device_id \<and> grouping_key e' = grouping_key e \<and>
           e_file_path e' = p \<and>
           (\<forall>e'' \<in> set (visible_rows self).
              e_device_id e'' = device_id \<and> grouping_key e'' = grouping_key e
                \<longrightarrow> p \<le> e_file_path e'')))"
proof -
  let ?rows = "visible_rows self"
  let ?paths = "query_unique_elements ?rows device_id"
  let ?rep = "\<lambda>k. min_list (group_paths ?rows device_id k)"
  have run: "\<exists>self'. get_uniques_for_device self device_id chunk_size = Inr (?paths, self')"
    using assms
    by (simp add: get_uniques_for_device_def try_commit_def fetch_loop_all
          visible_rows_commit)
  have srt: "sorted ?paths"
    by (simp add: query_unique_elements_def)
  have rep: "\<exists>e' \<in> set ?rows. e_device_id e' = device_id \<and> grouping_key e' = grouping_key e
        \<and> e_file_path e' = ?rep (grouping_key e)
        \<and> (\<forall>e'' \<in> set ?rows. e_device_id e'' = device_id \<and> grouping_key e'' = grouping_key e
              \<longrightarrow> ?rep (grouping_key e) \<le> e_file_path e'')"
    if e: "e \<in> set ?rows" "e_device_id e = device_id" for e
  proof -
    have "group_paths ?rows device_id (grouping_key e) \<noteq> []"
      using group_paths_nonempty [OF e(1)] e(2) by simp
    then have "?rep (grouping_key e) \<in> set (group_paths ?rows device_id (grouping_key e))"
      by (rule min_list_in)
    then obtain e' where e': "e' \<in> set ?rows" "e_device_id e' = device_id"
        "grouping_key e' = grouping_key e" "e_file_path e' = ?rep (grouping_key e)"
      by (auto simp: set_group_paths)
    have "?rep (grouping_key e) \<le> e_file_path e''"
      if "e'' \<in> set ?rows" "e_device_id e'' = device_id" "grouping_key e'' = grouping_key e"
      for e''
      by (rule min_list_le) (use that in \<open>auto simp: set_group_paths\<close>)
    with e' show ?thesis by blast
  qed
  have each: "\<forall>p \<in> set ?paths. \<exists>e \<in> set ?rows.
        e_device_id e = device_id \<and> e_file_path e = p \<and>
        (\<forall>e' \<in> set ?rows. e_device_id e' = device_id \<and> grouping_key e' = grouping_key e
             \<longrightarrow> p \<le> e_file_path e')"
  proof
    fix p assume "p \<in> set ?paths"
    then obtain e where e: "e \<in> set ?rows" "e_device_id e = device_id"
        and p: "p = ?rep (grouping_key e)"
      by (auto simp: set_query_unique_elements)
    from rep [OF e] obtain e' where "e' \<in> set ?rows" "e_device_id e' = device_id"
        "grouping_key e' = grouping_key e" "e_file_path e' = p"
        "\<forall>e'' \<in> set ?rows. e_device_id e'' = device_id \<and> grouping_key e'' = grouping_key e
              \<longrightarrow> p \<le> e_file_path e''"
      unfolding p by blast
    then show "\<exists>e \<in> set ?rows. e_device_id e = device_id \<and> e_file_path e = p \<and>
        (\<forall>e' \<in> set ?rows. e_device_id e' = device_id \<and> grouping_key e' = grouping_key e
             \<longrightarrow> p \<le> e_file_path e')"
      by (intro bexI [of _ e']) auto
  qed
  have all: "\<forall>e \<in> set ?rows. e_device_id e = device_id \<longrightarrow>
        (\<exists>p \<in> set ?paths. \<exists>e' \<in> set ?rows.
           e_device_id e' = device_id \<and> grouping_key e' = grouping_key e \<and>
           e_file_path e' = p \<and>
           (\<forall>e'' \<in> set ?rows.
              e_device_id e'' = device_id \<and> grouping_key e'' = grouping_key e
                \<longrightarrow> p \<le> e_file_path e''))"
  proof (intro ballI impI)
    fix e assume e: "e \<in> set ?rows" "e_device_id e = device_id"
    have "?rep (grouping_key e) \<in> set ?paths"
      using e by (auto simp: set_query_unique_elements)
    with rep [OF e] show "\<exists>p \<in> set ?paths. \<exists>e' \<in> set ?rows.
           e_device_id e' = device_id \<and> grouping_key e' = grouping_key e \<and>
           e_file_path e' = p \<and>
           (\<forall>e'' \<in> set ?rows.
              e_device_id e'' = device_id \<and> grouping_key e'' = grouping_key e
                \<longrightarrow> p \<le> e_file_path e'')"
      by blast
  qed
  from run srt length_query_unique_elements [of ?rows device_id] each all
  show ?thesis by blast
qed

theorem get_uniques_for_device_representatives_witness:
  "db_connection (example_store\<lparr>db_connection := Some \<lparr>pending = example_rows, in_transaction = True\<rparr>\<rparr>)
     = Some \<lparr>pending = example_rows, in_transaction = True\<rparr> \<and>
   (\<exists>self'. get_uniques_for_device
        (example_store\<lparr>db_connection := Some \<lparr>pending = example_rows, in_transaction = True\<rparr>\<rparr>) 1 2
      = Inr ([''/mnt/sd/a.txt'', ''/mnt/sd/c/d.txt''], self'))"
proof -
  let ?s = "example_store\<lparr>db_connection := Some \<lparr>pending = example_rows, in_transaction = True\<rparr>\<rparr>"
  have open_store: "db_connection ?s = Some \<lparr>pending = example_rows, in_transaction = True\<rparr>"
    by simp
  have run: "map_sum id fst (get_uniques_for_device ?s 1 2)
      = Inr [''/mnt/sd/a.txt'', ''/mnt/sd/c/d.txt'']"
    by (simp add: get_uniques_for_device_def try_commit_def example_store_def
        example_rows_def example_entry_def sqlite3_data_store_init_def commit_def
        visible_rows_def
        query_unique_elements_def get_unique_elements_all_def group_paths_def
        grouping_key_def fetch_loop_all)
  from get_uniques_for_device_representatives [OF open_store, of 1 2] run open_store
  show ?thesis by auto
qed

section \<open>The uniques query after \<^verbatim>\<open>store_entry\<close> calls\<close>

text \<open>
  C10, as the code has it. On an open store, after any sequence of
  \<^verbatim>\<open>store_entry\<close> calls that returned, \<^verbatim>\<open>get_uniques_for_device\<close> first tries to
  commit the pending transaction and ignores an \<^verbatim>\<open>OperationalError\<close> of the commit.
  In both cases it returns, and its query ranges over the rows seen before together
  with every stored entry, whatever the threshold and the counter are. When the commit
  does not raise, these rows are the committed rows and no row is left pending; when
  it raises, the store is left as it was.
\<close>

theorem get_uniques_for_device_sees_stored_entries:
  assumes "db_connection self = Some con"
      and "store_entries self entries = Inr self1"
  shows "\<exists>self2.
     get_uniques_for_device self1 device_id chunk_size =
       Inr (query_unique_elements (visible_rows self @ entries) device_id, self2) \<and>
     visible_rows self2 = visible_rows self @ entries \<and>
     (if commit_raises self1 then self2 = self1
      else db_rows self2 = visible_rows self @ entries \<and>
           (\<exists>con2. db_connection self2 = Some con2 \<and> pending con2 = []))"
proof -
  from store_entries_visible [OF assms(2)] assms(1)
  have vis: "visible_rows self1 = visible_rows self @ entries"
    and "db_connection self1 \<noteq> None" by auto
  then obtain con1 where con1: "db_connection self1 = Some con1" by auto
  show ?thesis
  proof (cases "commit_raises self1")
    case True
    with con1 vis have "get_uniques_for_device self1 device_id chunk_size =
        Inr (query_unique_elements (visible_rows self @ entries) device_id, self1)"
      by (simp add: get_uniques_for_device_def try_commit_def fetch_loop_all)
    with True vis show ?thesis by simp
  next
    case False
    have rows: "db_rows (commit self1 con1) = visible_rows self @ entries"
      using con1 vis by (simp add: commit_def visible_rows_def)
    have con: "db_connection (commit self1 con1) =
        Some (con1\<lparr>pending := [], in_transaction := False\<rparr>)"
      by (simp add: commit_def)
    have seen: "visible_rows (commit self1 con1) = visible_rows self @ entries"
      using visible_rows_commit [OF con1] vis by simp
    have run: "get_uniques_for_device self1 device_id chunk_size =
        Inr (query_unique_elements (visible_rows self @ entries) device_id,
             commit self1 con1)"
      using con1 False seen
      by (simp add: get_uniques_for_device_def try_commit_def fetch_loop_all)
    from run rows con seen False show ?thesis by simp
  qed
qed

theorem get_uniques_for_device_sees_stored_entries_witness:
  "db_connection example_store = Some \<lparr>pending = [], in_transaction = True\<rparr> \<and>
   (\<exists>self1. store_entries example_store example_rows = Inr self1 \<and>
      db_rows self1 = [] \<and> current_data_runner self1 < write_data_threshold self1 \<and>
      \<not> commit_raises self1 \<and>
      (\<exists>self2. get_uniques_for_device self1 1 0
                = Inr ([''/mnt/sd/a.txt'', ''/mnt/sd/c/d.txt''], self2) \<and>
              db_rows self2 = example_rows)) \<and>
   store_entries (example_store\<lparr>commit_raises := True\<rparr>) example_rows = Inr locked_store \<and>
   commit_raises locked_store \<and>
   get_uniques_for_device locked_store 1 0
     = Inr ([''/mnt/sd/a.txt'', ''/mnt/sd/c/d.txt''], locked_store)"
proof -
  let ?s1 = "example_store\<lparr>db_connection := Some \<lparr>pending = example_rows, in_transaction = True\<rparr>,
                current_data_runner := 4\<rparr>"
  have open_store: "db_connection example_store = Some \<lparr>pending = [], in_transaction = True\<rparr>"
    by (simp add: example_store_def)
  have stored: "store_entries example_store example_rows = Inr ?s1"
    by (simp add: example_store_def example_rows_def store_entry_def visible_rows_def
        sqlite3_data_store_init_def Let_def)
  have before: "db_rows ?s1 = [] \<and> current_data_runner ?s1 < write_data_threshold ?s1
      \<and> \<not> commit_raises ?s1"
    by (simp add: example_store_def sqlite3_data_store_init_def)
  have query: "query_unique_elements example_rows 1 = [''/mnt/sd/a.txt'', ''/mnt/sd/c/d.txt'']"
    by (simp add: example_rows_def example_entry_def query_unique_elements_def
        get_unique_elements_all_def group_paths_def grouping_key_def)
  have rows: "visible_rows example_store @ example_rows = example_rows"
    by (simp add: example_store_def sqlite3_data_store_init_def visible_rows_def)
  from get_uniques_for_device_sees_stored_entries [OF open_store stored, of 1 0] before
  obtain self2 where "get_uniques_for_device ?s1 1 0
        = Inr ([''/mnt/sd/a.txt'', ''/mnt/sd/c/d.txt''], self2)"
      and "db_rows self2 = example_rows"
    unfolding rows query by auto
  with open_store stored before have committed:
    "\<exists>self1. store_entries example_store example_rows = Inr self1 \<and>
      db_rows self1 = [] \<and> current_data_runner self1 < write_data_threshold self1 \<and>
      \<not> commit_raises self1 \<and>
      (\<exists>self2. get_uniques_for_device self1 1 0
                = Inr ([''/mnt/sd/a.txt'', ''/mnt/sd/c/d.txt''], self2) \<and>
              db_rows self2 = example_rows)"
    by blast
  have open_locked: "db_connection (example_store\<lparr>commit_raises := True\<rparr>)
      = Some \<lparr>pending = [], in_transaction = True\<rparr>"
    by (simp add: example_store_def)
  have stored_locked:
    "store_entries (example_store\<lparr>commit_raises := True\<rparr>) example_rows = Inr locked_store"
    by (simp add: locked_store_def example_store_def example_rows_def store_entry_def
        visible_rows_def sqlite3_data_store_init_def Let_def)
  have raises: "commit_raises locked_store"
    by (simp add: locked_store_def)
  have rows_locked:
    "visible_rows (example_store\<lparr>commit_raises := True\<rparr>) @ example_rows = example_rows"
    by (simp add: example_store_def sqlite3_data_store_init_def visible_rows_def)
  from get_uniques_for_device_sees_stored_entries [OF open_locked stored_locked, of 1 0] raises
  have "get_uniques_for_device locked_store 1 0
      = Inr ([''/mnt/sd/a.txt'', ''/mnt/sd/c/d.txt''], locked_store)"
    unfolding rows_locked query by auto
  with open_store committed stored_locked raises show ?thesis by blast
qed

text \<open>
  The claim fails on the store whose four rows are pending when the commit raises: the
  call returns its paths, and afterwards no row is committed and the four rows are
  still pending.
\<close>

theorem failed_commit_leaves_rows_pending:
  "commit_raises locked_store \<and>
   get_uniques_for_device locked_store 1 0
     = Inr ([''/mnt/sd/a.txt'', ''/mnt/sd/c/d.txt''], locked_store) \<and>
   db_rows locked_store = [] \<and>
   db_connection locked_store = Some \<lparr>pending = example_rows, in_transaction = True\<rparr>"
  by (simp add: get_uniques_for_device_def try_commit_def locked_store_def example_store_def
        example_rows_def example_entry_def sqlite3_data_store_init_def visible_rows_def
        query_unique_elements_def get_unique_elements_all_def group_paths_def
        grouping_key_def fetch_loop_all)

section \<open>The calls of a task appear in the trace, and only they\<close>

lemma extends_refl: "extends Q w w"
  by (simp add: extends_def)

lemma extends_trans: "extends Q w w1 \<Longrightarrow> extends Q w1 w2 \<Longrightarrow> extends Q w w2"
  by (fastforce simp: extends_def)

lemma extends_emit: "Q (who, ev) \<Longrightarrow> extends Q w (emit who ev w)"
  by (simp add: extends_def emit_def)

lemma extends_store: "extends Q w w1 \<Longrightarrow> extends Q w (w1\<lparr>store := s\<rparr>)"
  by (simp add: extends_def)

lemma step_confined:
  assumes "confined Q who p" and "step who p w = (w', p')"
  shows "confined Q who p' \<and> extends Q w w'"
  using assms
  by (cases p)
     (auto simp: Let_def extends_refl extends_emit extends_store
           split: sum.splits prod.splits)

lemma exec_confined:
  "confined Q who p \<Longrightarrow> exec who p w = (w', r) \<Longrightarrow> extends Q w w'"
proof (induction p arbitrary: w)
  case (Store_entry entry p)
  let ?w1 = "emit who (Ds_store_entry entry) w"
  have e1: "extends Q w ?w1"
    using Store_entry.prems(1) by (simp add: extends_emit)
  show ?case
  proof (cases "store_entry (store ?w1) entry")
    case (Inl err)
    with Store_entry.prems e1 show ?thesis by (simp add: Let_def)
  next
    case (Inr s)
    with Store_entry.prems have "exec who p (?w1\<lparr>store := s\<rparr>) = (w', r)"
      by (simp add: Let_def)
    from Store_entry.IH [OF _ this] Store_entry.prems(1)
    have "extends Q (?w1\<lparr>store := s\<rparr>) w'" by simp
    with extends_store [OF e1] show ?thesis by (rule extends_trans)
  qed
next
  case (Get_uniques device_id chunk_size k)
  let ?w1 = "emit who (Ds_get_uniques device_id chunk_size) w"
  have e1: "extends Q w ?w1"
    using Get_uniques.prems(1) by (simp add: extends_emit)
  show ?case
  proof (cases "get_uniques_for_device (store ?w1) device_id chunk_size")
    case (Inl err)
    with Get_uniques.prems e1 show ?thesis by (simp add: Let_def)
  next
    case (Inr res)
    obtain paths s where res: "res = (paths, s)" by (cases res)
    with Inr Get_uniques.prems have run: "exec who (k paths) (?w1\<lparr>store := s\<rparr>) = (w', r)"
      by (simp add: Let_def)
    have "confined Q who (k paths)"
      using Get_uniques.prems(1) by simp
    from Get_uniques.IH [OF rangeI this run]
    have "extends Q (?w1\<lparr>store := s\<rparr>) w'" .
    with extends_store [OF e1] show ?thesis by (rule extends_trans)
  qed
qed (auto intro: extends_refl extends_trans [OF extends_emit])

lemma run_schedule_confined:
  "\<forall>t \<in> set tasks. confined Q (fst t) (snd t) \<Longrightarrow>
   run_schedule sched tasks w = (w', tasks') \<Longrightarrow>
   (\<forall>t \<in> set tasks'. confined Q (fst t) (snd t)) \<and> extends Q w w'"
proof (induction sched arbitrary: tasks w)
  case Nil
  then show ?case by (simp add: extends_refl)
next
  case (Cons i sched)
  show ?case
  proof (cases "i < length tasks")
    case False
    with Cons show ?thesis by simp
  next
    case True
    obtain who p where t: "tasks ! i = (who, p)" by (cases "tasks ! i")
    obtain w1 p1 where st: "step who p w = (w1, p1)" by (cases "step who p w")
    have "confined Q who p"
      using Cons.prems(1) True t by (metis fst_conv nth_mem snd_conv)
    from step_confined [OF this st] have p1: "confined Q who p1" and e1: "extends Q w w1"
      by auto
    have all1: "\<forall>t \<in> set (tasks[i := (who, p1)]). confined Q (fst t) (snd t)"
      using Cons.prems(1) p1 by (auto dest!: set_update_subset_insert [THEN subsetD])
    have "run_schedule sched (tasks[i := (who, p1)]) w1 = (w', tasks')"
      using Cons.prems(2) True t st by simp
    from Cons.IH [OF all1 this] e1 show ?thesis
      by (auto intro: extends_trans)
  qed
qed

lemma join_pool_confined:
  "\<forall>t \<in> set tasks. confined Q (fst t) (snd t) \<Longrightarrow>
   join_pool tasks w = (w', rs) \<Longrightarrow> extends Q w w'"
proof (induction tasks arbitrary: w rs w')
  case Nil
  then show ?case by (simp add: extends_refl)
next
  case (Cons t tasks)
  obtain who p where t: "t = (who, p)" by (cases t)
  obtain w1 r where ex: "exec who p w = (w1, r)" by (cases "exec who p w")
  obtain w2 rs2 where jp: "join_pool tasks w1 = (w2, rs2)" by (cases "join_pool tasks w1")
  from Cons.prems t ex jp have w': "w' = w2" by simp
  have "extends Q w w1"
    using exec_confined [OF _ ex] Cons.prems(1) t by simp
  moreover have "extends Q w1 w2"
    using Cons.IH [OF _ jp] Cons.prems(1) by simp
  ultimately show ?case unfolding w' by (rule extends_trans)
qed

lemma thread_pool_run_confined:
  assumes "\<forall>t \<in> set tasks. confined Q (fst t) (snd t)"
      and "thread_pool_run sched tasks w = (w', rs)"
  shows "extends Q w w'"
proof -
  obtain w1 tasks1 where rs: "run_schedule sched tasks w = (w1, tasks1)"
    by (cases "run_schedule sched tasks w")
  with assms(2) have jp: "join_pool tasks1 w1 = (w', rs)"
    by (simp add: thread_pool_run_def)
  from run_schedule_confined [OF assms(1) rs] join_pool_confined [OF _ jp]
  show ?thesis by (blast intro: extends_trans)
qed

lemma run_tasks_confined:
  "\<forall>t \<in> set tasks. confined Q (fst t) (snd t) \<Longrightarrow>
   run_tasks tasks w = (w', r) \<Longrightarrow> extends Q w w'"
proof (induction tasks arbitrary: w)
  case Nil
  then show ?case by (simp add: extends_refl)
next
  case (Cons t tasks)
  obtain who p where t: "t = (who, p)" by (cases t)
  obtain w1 r1 where ex: "exec who p w = (w1, r1)" by (cases "exec who p w")
  have e1: "extends Q w w1"
    using exec_confined [OF _ ex] Cons.prems(1) t by simp
  show ?case
  proof (cases r1)
    case None
    with Cons.prems t ex have "run_tasks tasks w1 = (w', r)" by simp
    from Cons.IH [OF _ this] Cons.prems(1) e1 show ?thesis
      by (auto intro: extends_trans)
  next
    case (Some err)
    with Cons.prems t ex e1 show ?thesis by simp
  qed
qed

section \<open>The phase barrier\<close>

lemma confined_emit_logs:
  "(\<And>level msg. Q (who, Log level msg)) \<Longrightarrow> confined Q who p \<Longrightarrow>
   confined Q who (emit_logs logs p)"
  by (induction logs) auto

lemma confined_collect_files:
  assumes "\<And>level msg. Q (who, Log level msg)"
      and "\<And>entry. Q (who, Ds_store_entry entry)"
      and "confined Q who k"
  shows "confined Q who
           (collect_files env device_id hashlib_functions read_file_slack_func device_loop
              slack_size chunk_size paths hash_funcs k)"
  using assms
proof (induction paths arbitrary: hash_funcs)
  case Nil
  then show ?case by simp
next
  case (Cons absolute_path paths)
  show ?case
    by (auto simp: Cons.prems(1,2) split: sum.splits prod.splits
             intro!: confined_emit_logs Cons.IH Cons.prems)
qed

lemma confined_collector:
  assumes "\<And>level msg. Q (who, Log level msg)"
      and "\<And>entry. Q (who, Ds_store_entry entry)"
  shows "confined Q who
           (collector env device_id source_path hashlib_functions get_device_loop_func
              read_file_slack_func slack_size chunk_size)"
  by (auto simp: collector_def assms split: sum.splits intro!: confined_collect_files assms)

lemma confined_archive_files:
  assumes "\<And>level msg. Q (who, Log level msg)"
      and "\<And>source alias. Q (who, Ar_store_file source alias)"
      and "\<And>svc. confined Q who (k svc)"
  shows "confined Q who (archive_files env archive_service con_src targets k)"
  using assms
proof (induction targets arbitrary: archive_service)
  case Nil
  then show ?case by simp
next
  case (Cons target_path targets)
  show ?case
    by (auto simp: Cons.prems(1,2) Let_def split: sum.splits intro!: Cons.IH Cons.prems)
qed

lemma confined_archiver:
  assumes "\<And>level msg. Q (who, Log level msg)"
      and "\<And>source alias. Q (who, Ar_store_file source alias)"
      and "\<And>location name. Q (who, Ar_provide location name)"
      and "\<And>device_id chunk_size. Q (who, Ds_get_uniques device_id chunk_size)"
      and "Q (who, Ar_close)"
  shows "confined Q who (archiver env device_id archive_service opts device_sourcepath)"
  by (auto simp: archiver_def Let_def assms split: sum.splits
           intro!: confined_archive_files assms)

lemma collector_tasks_confined:
  "\<forall>t \<in> set (map (collector_task env opts get_device_loop_func read_file_slack_func) devs).
     confined (\<lambda>x. \<not> archive_op x) (fst t) (snd t)"
  by (auto simp: collector_task_def intro!: confined_collector)

lemma archiver_tasks_confined:
  "\<forall>t \<in> set (map (archiver_task env archive_service opts) devs).
     confined (\<lambda>x. \<not> collect_op x) (fst t) (snd t)"
  by (auto simp: archiver_task_def intro!: confined_archiver)

lemma open_store_extends:
  "Q (Coordinator, Ds_open) \<Longrightarrow> open_store w = (w1, r) \<Longrightarrow> extends Q w w1"
  by (auto simp: open_store_def Let_def split: sum.splits
           intro: extends_emit extends_store)

lemma close_store_extends:
  "Q (Coordinator, Ds_close) \<Longrightarrow> close_store w = (w1, r) \<Longrightarrow> extends Q w w1"
  by (auto simp: close_store_def Let_def split: sum.splits
           intro: extends_emit extends_store)

lemma pool_phase_extends:
  assumes "\<forall>t \<in> set tasks. confined Q (fst t) (snd t)"
      and "pool_phase sched opts tasks w = (w1, r)"
  shows "extends Q w w1"
proof (cases "number_threads opts < 1")
  case True
  with assms(2) show ?thesis by (simp add: pool_phase_def extends_refl)
next
  case False
  obtain w2 rs where run: "thread_pool_run sched tasks w = (w2, rs)"
    by (cases "thread_pool_run sched tasks w")
  with False assms(2) have "w1 = w2" by (simp add: pool_phase_def)
  with thread_pool_run_confined [OF assms(1) run] show ?thesis by simp
qed

lemma collect_phase_extends:
  assumes "collect_phase sched env opts devs w = (w1, r)"
  shows "extends (\<lambda>x. \<not> archive_op x) w w1"
proof (cases "number_threads opts < 1")
  case True
  with assms show ?thesis by (simp add: collect_phase_def extends_refl)
next
  case False
  obtain log1 f where a1: "assign_get_device_loop env = (log1, f)"
    by (cases "assign_get_device_loop env")
  obtain log2 g where a2: "assign_read_file_slack env = (log2, g)"
    by (cases "assign_read_file_slack env")
  let ?w1 = "emit Coordinator (Log (fst log1) (snd log1)) w"
  let ?w2 = "emit Coordinator (Log (fst log2) (snd log2)) ?w1"
  have run: "pool_phase sched opts (map (collector_task env opts f g) devs) ?w2 = (w1, r)"
    using assms False a1 a2 by (simp add: collect_phase_def Let_def)
  have "extends (\<lambda>x. \<not> archive_op x) w ?w2"
    by (intro extends_trans [OF extends_emit extends_emit]) simp_all
  with pool_phase_extends [OF collector_tasks_confined run] show ?thesis
    by (blast intro: extends_trans)
qed

lemma archive_phase_extends:
  "archive_phase sched env archive_service opts devs w = (w1, r) \<Longrightarrow>
   extends (\<lambda>x. \<not> collect_op x) w w1"
  unfolding archive_phase_def
  by (rule pool_phase_extends [OF archiver_tasks_confined])

lemma collect_before_archive_no_collect:
  "\<forall>x \<in> set post. \<not> collect_op x \<Longrightarrow> collect_before_archive post"
  by (induction post) (auto simp: list_all_iff)

lemma collect_before_archive_append:
  "\<forall>x \<in> set pre. \<not> archive_op x \<Longrightarrow> \<forall>x \<in> set post. \<not> collect_op x \<Longrightarrow>
   collect_before_archive (pre @ post)"
  by (induction pre) (auto simp: collect_before_archive_no_collect)

text \<open>
  In other words the trace splits into a part without archive events followed by a
  part without collect events.
\<close>

lemma collect_before_archive_split:
  "collect_before_archive t \<longleftrightarrow>
     (\<exists>pre post. t = pre @ post \<and> (\<forall>x \<in> set pre. \<not> archive_op x)
        \<and> (\<forall>x \<in> set post. \<not> collect_op x))"
proof
  show "\<exists>pre post. t = pre @ post \<and> (\<forall>x \<in> set pre. \<not> archive_op x)
        \<and> (\<forall>x \<in> set post. \<not> collect_op x)" if "collect_before_archive t"
    using that
  proof (induction t)
    case Nil
    then show ?case by simp
  next
    case (Cons x t)
    show ?case
    proof (cases "archive_op x")
      case True
      with Cons.prems have "\<forall>y \<in> set (x # t). \<not> collect_op y"
        by (simp add: list_all_iff)
      then show ?thesis by (intro exI [of _ "[]"] exI [of _ "x # t"]) simp
    next
      case False
      with Cons obtain pre post where "t = pre @ post" "\<forall>x \<in> set pre. \<not> archive_op x"
          "\<forall>x \<in> set post. \<not> collect_op x"
        by auto
      with False show ?thesis
        by (intro exI [of _ "x # pre"] exI [of _ post]) simp
    qed
  qed
next
  assume "\<exists>pre post. t = pre @ post \<and> (\<forall>x \<in> set pre. \<not> archive_op x)
        \<and> (\<forall>x \<in> set post. \<not> collect_op x)"
  then show "collect_before_archive t"
    by (auto intro: collect_before_archive_append)
qed

lemma phases_in_order:
  assumes "trace w = []"
      and "extends (\<lambda>x. \<not> archive_op x) w w1"
      and "extends (\<lambda>x. \<not> collect_op x) w1 w2"
  shows "collect_before_archive (trace w2)"
  using assms by (auto simp: extends_def intro: collect_before_archive_append)

lemma pipeline_in_order:
  assumes "trace w = []"
  shows "collect_before_archive
           (trace (fst (deduplication_pipeline sched1 sched2 env archive_service opts devs w)))"
proof -
  obtain w1 r1 where op: "open_store w = (w1, r1)" by (cases "open_store w")
  have e1: "extends (\<lambda>x. \<not> archive_op x) w w1"
    by (rule open_store_extends [OF _ op]) simp
  obtain w2 r2 where cp: "(if collect opts then collect_phase sched1 env opts devs w1
      else (w1, None)) = (w2, r2)"
    by (cases "if collect opts then collect_phase sched1 env opts devs w1 else (w1, None)")
  have e2: "extends (\<lambda>x. \<not> archive_op x) w1 w2"
    using cp by (auto split: if_splits intro: collect_phase_extends extends_refl)
  obtain w3 r3 where ap: "(if create_archive opts
      then archive_phase sched2 env archive_service opts devs w2 else (w2, None)) = (w3, r3)"
    by (cases "if create_archive opts
      then archive_phase sched2 env archive_service opts devs w2 else (w2, None)")
  have e3: "extends (\<lambda>x. \<not> collect_op x) w2 w3"
    using ap by (auto split: if_splits intro: archive_phase_extends extends_refl)
  obtain w4 r4 where cl: "close_store w3 = (w4, r4)" by (cases "close_store w3")
  have e4: "extends (\<lambda>x. \<not> collect_op x) w3 w4"
    by (rule close_store_extends [OF _ cl]) simp
  have pre: "extends (\<lambda>x. \<not> archive_op x) w w2"
    using e1 e2 by (rule extends_trans)
  have "fst (deduplication_pipeline sched1 sched2 env archive_service opts devs w)
      \<in> {w1, w2, w3, w4}"
    using op cp ap cl
    by (auto simp: deduplication_pipeline_def split: option.splits if_splits)
  moreover have "collect_before_archive (trace w1)"
    by (rule phases_in_order [OF assms e1 extends_refl])
  moreover have "collect_before_archive (trace w2)"
    by (rule phases_in_order [OF assms pre extends_refl])
  moreover have "collect_before_archive (trace w3)"
    by (rule phases_in_order [OF assms pre e3])
  moreover have "collect_before_archive (trace w4)"
    by (rule phases_in_order [OF assms pre extends_trans [OF e3 e4]])
  ultimately show ?thesis by auto
qed

lemma pipeline_single_in_order:
  assumes "trace w = []"
  shows "collect_before_archive
           (trace (fst (deduplication_pipeline_single env archive_service opts devs w)))"
proof -
  obtain log1 f where a1: "assign_get_device_loop env = (log1, f)"
    by (cases "assign_get_device_loop env")
  obtain log2 g where a2: "assign_read_file_slack env = (log2, g)"
    by (cases "assign_read_file_slack env")
  let ?w01 = "emit Coordinator (Log (fst log1) (snd log1)) w"
  let ?w02 = "emit Coordinator (Log (fst log2) (snd log2)) ?w01"
  have e0: "extends (\<lambda>x. \<not> archive_op x) w ?w02"
    by (intro extends_trans [OF extends_emit extends_emit]) simp_all
  obtain w1 r1 where op: "open_store ?w02 = (w1, r1)" by (cases "open_store ?w02")
  have e1: "extends (\<lambda>x. \<not> archive_op x) ?w02 w1"
    by (rule open_store_extends [OF _ op]) simp
  obtain w2 r2 where cp: "run_tasks (map (collector_task env opts f g) devs) w1 = (w2, r2)"
    by (cases "run_tasks (map (collector_task env opts f g) devs) w1")
  have e2: "extends (\<lambda>x. \<not> archive_op x) w1 w2"
    by (rule run_tasks_confined [OF collector_tasks_confined cp])
  obtain w3 r3 where ap: "run_tasks (map (archiver_task env archive_service opts) devs) w2
      = (w3, r3)"
    by (cases "run_tasks (map (archiver_task env archive_service opts) devs) w2")
  have e3: "extends (\<lambda>x. \<not> collect_op x) w2 w3"
    by (rule run_tasks_confined [OF archiver_tasks_confined ap])
  obtain w4 r4 where cl: "close_store w3 = (w4, r4)" by (cases "close_store w3")
  have e4: "extends (\<lambda>x. \<not> collect_op x) w3 w4"
    by (rule close_store_extends [OF _ cl]) simp
  have pre1: "extends (\<lambda>x. \<not> archive_op x) w w1"
    using e0 e1 by (rule extends_trans)
  have pre: "extends (\<lambda>x. \<not> archive_op x) w w2"
    using pre1 e2 by (rule extends_trans)
  have "fst (deduplication_pipeline_single env archive_service opts devs w)
      \<in> {w1, w2, w3, w4}"
    using a1 a2 op cp ap cl
    by (auto simp: deduplication_pipeline_single_def Let_def split: option.splits)
  moreover have "collect_before_archive (trace w1)"
    by (rule phases_in_order [OF assms pre1 extends_refl])
  moreover have "collect_before_archive (trace w2)"
    by (rule phases_in_order [OF assms pre extends_refl])
  moreover have "collect_before_archive (trace w3)"
    by (rule phases_in_order [OF assms pre e3])
  moreover have "collect_before_archive (trace w4)"
    by (rule phases_in_order [OF assms pre extends_trans [OF e3 e4]])
  ultimately show ?thesis by auto
qed

text \<open>The equations that evaluate a run on given data.\<close>

lemmas model_defs =
  deduplication_pipeline_single_def deduplication_pipeline_def collect_phase_def
  archive_phase_def pool_phase_def thread_pool_run_def open_store_def close_store_def
  collector_task_def archiver_task_def collector_def archiver_def walked_paths_def
  path_join_def startswith_def remove_quotes_def assign_get_device_loop_def
  assign_read_file_slack_def get_device_loop_linux_def partition_head_def
  read_file_slack_def read_slack_def get_slack_block_def py_int_def
  calculate_file_hashes_def read_chunks_whole safe_digest_def update_hash_def
  hash_update_def new_hash_def map_options_to_digests_def options_init_def
  ds_open_def sql_create_script_def ds_close_def begin_transaction_def commit_def store_entry_def
  visible_rows_def try_commit_def get_uniques_for_device_def fetch_loop_all
  query_unique_elements_def
  get_unique_elements_all_def group_paths_def grouping_key_def
  sqlite3_data_store_init_def zip_provide_def zip_store_file_def zip_close_def
  str_int_def emit_def Let_def

text \<open>
  C6. In both scheduling models and for every schedule of the two thread pools, the
  trace of a run has no event of the collect phase (an event of a collector, a
  \<^verbatim>\<open>store_entry\<close> call) after an event of the archive phase (an event of an archiver,
  a \<^verbatim>\<open>store_file\<close>, \<^verbatim>\<open>provide\<close>, \<^verbatim>\<open>close\<close> or uniques call): every collector
  has ended before the first archiver operation.
\<close>

theorem collect_phase_before_archive_phase:
  assumes "trace w = []"
  shows "collect_before_archive
           (trace (fst (deduplication_pipeline sched1 sched2 env archive_service opts devs w)))
       \<and> collect_before_archive
           (trace (fst (deduplication_pipeline_single env archive_service opts devs w)))"
  using pipeline_in_order [OF assms] pipeline_single_in_order [OF assms] by simp

theorem collect_phase_before_archive_phase_witness:
  "trace example_world = [] \<and>
   collect_before_archive
     (trace (fst (deduplication_pipeline [1, 0, 0, 1, 0, 0, 1, 0] [1, 0, 1, 0] example_env
                    \<lparr>zip_file_ptr = None\<rparr> (example_options\<lparr>number_threads := 2\<rparr>)
                    example_devices example_world))) \<and>
   collect_before_archive
     (trace (fst (deduplication_pipeline_single example_env \<lparr>zip_file_ptr = None\<rparr>
                    example_options example_devices example_world))) \<and>
   map e_file_path
     (stored_entries
        (trace (fst (deduplication_pipeline [1, 0, 0, 1, 0, 0, 1, 0] [1, 0, 1, 0] example_env
                       \<lparr>zip_file_ptr = None\<rparr> (example_options\<lparr>number_threads := 2\<rparr>)
                       example_devices example_world))))
     = [''/mnt/usb/y'', ''/mnt/sd/b.txt'', ''/mnt/sd/a.txt''] \<and>
   store_file_calls
     (trace (fst (deduplication_pipeline [1, 0, 0, 1, 0, 0, 1, 0] [1, 0, 1, 0] example_env
                    \<lparr>zip_file_ptr = None\<rparr> (example_options\<lparr>number_threads := 2\<rparr>)
                    example_devices example_world)))
     = [(''/mnt/sd/a.txt'', Some ''a.txt''), (''/mnt/usb/y'', Some ''y'')]"
proof -
  have empty: "trace example_world = []"
    by (simp add: example_world_def)
  have entries: "map e_file_path
     (stored_entries
        (trace (fst (deduplication_pipeline [1, 0, 0, 1, 0, 0, 1, 0] [1, 0, 1, 0] example_env
                       \<lparr>zip_file_ptr = None\<rparr> (example_options\<lparr>number_threads := 2\<rparr>)
                       example_devices example_world))))
     = [''/mnt/usb/y'', ''/mnt/sd/b.txt'', ''/mnt/sd/a.txt'']"
    by (simp add: model_defs example_env_def example_options_def example_devices_def
          example_world_def str_nat.simps)
  have files: "store_file_calls
     (trace (fst (deduplication_pipeline [1, 0, 0, 1, 0, 0, 1, 0] [1, 0, 1, 0] example_env
                    \<lparr>zip_file_ptr = None\<rparr> (example_options\<lparr>number_threads := 2\<rparr>)
                    example_devices example_world)))
     = [(''/mnt/sd/a.txt'', Some ''a.txt''), (''/mnt/usb/y'', Some ''y'')]"
    by (simp add: model_defs example_env_def example_options_def example_devices_def
          example_world_def str_nat.simps)
  from collect_phase_before_archive_phase [OF empty] empty entries files
  show ?thesis by blast
qed

section \<open>The store stays open while tasks run\<close>

lemma ds_open_opened: "ds_open s = Inr s' \<Longrightarrow> db_connection s' \<noteq> None"
  by (auto simp: ds_open_def begin_transaction_def sql_create_script_def Let_def
           split: if_splits option.splits)

lemma get_uniques_opened:
  "get_uniques_for_device s device_id chunk_size = Inr (paths, s') \<Longrightarrow>
   db_connection s' \<noteq> None"
  by (auto simp: get_uniques_for_device_def try_commit_def commit_def Let_def
           split: option.splits if_splits)

lemma store_emit: "store (emit who ev w) = store w"
  by (simp add: emit_def)

lemma step_opened:
  "db_connection (store w) \<noteq> None \<Longrightarrow> step who p w = (w', p') \<Longrightarrow>
   db_connection (store w') \<noteq> None"
  by (cases p)
     (auto simp: emit_def Let_def split: sum.splits prod.splits
           dest: store_entry_visible get_uniques_opened)

lemma exec_opened:
  "db_connection (store w) \<noteq> None \<Longrightarrow> exec who p w = (w', r) \<Longrightarrow>
   db_connection (store w') \<noteq> None"
proof (induction p arbitrary: w)
  case (Store_entry entry p)
  show ?case
  proof (cases "store_entry (store w) entry")
    case (Inl err)
    with Store_entry.prems show ?thesis by (auto simp: emit_def Let_def)
  next
    case (Inr s)
    with Store_entry.prems
    have "exec who p (emit who (Ds_store_entry entry) w\<lparr>store := s\<rparr>) = (w', r)"
      by (simp add: emit_def Let_def)
    moreover have "db_connection s \<noteq> None"
      using store_entry_visible [OF Inr] by simp
    ultimately show ?thesis
      using Store_entry.IH [of "emit who (Ds_store_entry entry) w\<lparr>store := s\<rparr>"] by simp
  qed
next
  case (Get_uniques device_id chunk_size k)
  show ?case
  proof (cases "get_uniques_for_device (store w) device_id chunk_size")
    case (Inl err)
    with Get_uniques.prems show ?thesis by (auto simp: emit_def Let_def)
  next
    case (Inr res)
    obtain paths s where res: "res = (paths, s)" by (cases res)
    with Inr Get_uniques.prems
    have "exec who (k paths) (emit who (Ds_get_uniques device_id chunk_size) w\<lparr>store := s\<rparr>)
            = (w', r)"
      by (simp add: emit_def Let_def)
    moreover have "db_connection s \<noteq> None"
      using get_uniques_opened Inr res by blast
    ultimately show ?thesis
      using Get_uniques.IH [OF rangeI,
          of "emit who (Ds_get_uniques device_id chunk_size) w\<lparr>store := s\<rparr>" paths]
      by simp
  qed
next
  case (Logger level msg p)
  from Logger.IH [of "emit who (Log level msg) w"] Logger.prems show ?case
    by (simp add: store_emit)
next
  case (Provide location name p)
  from Provide.IH [of "emit who (Ar_provide location name) w"] Provide.prems show ?case
    by (simp add: store_emit)
next
  case (Store_file src name p)
  from Store_file.IH [of "emit who (Ar_store_file src name) w"] Store_file.prems
  show ?case by (simp add: store_emit)
next
  case (Archive_close p)
  from Archive_close.IH [of "emit who Ar_close w"] Archive_close.prems show ?case
    by (simp add: store_emit)
qed simp_all

lemma run_schedule_opened:
  "db_connection (store w) \<noteq> None \<Longrightarrow> run_schedule sched tasks w = (w', tasks') \<Longrightarrow>
   db_connection (store w') \<noteq> None"
proof (induction sched arbitrary: tasks w)
  case Nil
  then show ?case by simp
next
  case (Cons i sched)
  show ?case
  proof (cases "i < length tasks")
    case False
    with Cons show ?thesis by simp
  next
    case True
    obtain who p where t: "tasks ! i = (who, p)" by (cases "tasks ! i")
    obtain w1 p1 where st: "step who p w = (w1, p1)" by (cases "step who p w")
    have "run_schedule sched (tasks[i := (who, p1)]) w1 = (w', tasks')"
      using Cons.prems(2) True t st by simp
    with Cons.IH step_opened [OF Cons.prems(1) st] show ?thesis by blast
  qed
qed

lemma join_pool_opened:
  "db_connection (store w) \<noteq> None \<Longrightarrow> join_pool tasks w = (w', rs) \<Longrightarrow>
   db_connection (store w') \<noteq> None"
proof (induction tasks arbitrary: w rs w')
  case Nil
  then show ?case by simp
next
  case (Cons t tasks)
  obtain who p where t: "t = (who, p)" by (cases t)
  obtain w1 r where ex: "exec who p w = (w1, r)" by (cases "exec who p w")
  obtain w2 rs2 where jp: "join_pool tasks w1 = (w2, rs2)" by (cases "join_pool tasks w1")
  from Cons.prems t ex jp have "w' = w2" by simp
  with Cons.IH [OF exec_opened [OF Cons.prems(1) ex] jp] show ?case by simp
qed

lemma run_tasks_opened:
  "db_connection (store w) \<noteq> None \<Longrightarrow> run_tasks tasks w = (w', r) \<Longrightarrow>
   db_connection (store w') \<noteq> None"
proof (induction tasks arbitrary: w)
  case Nil
  then show ?case by simp
next
  case (Cons t tasks)
  obtain who p where t: "t = (who, p)" by (cases t)
  obtain w1 r1 where ex: "exec who p w = (w1, r1)" by (cases "exec who p w")
  note o1 = exec_opened [OF Cons.prems(1) ex]
  show ?case
  proof (cases r1)
    case None
    with Cons.prems t ex have "run_tasks tasks w1 = (w', r)" by simp
    from Cons.IH [OF o1 this] show ?thesis .
  next
    case (Some err)
    with Cons.prems t ex o1 show ?thesis by simp
  qed
qed

lemma pool_phase_opened:
  assumes "db_connection (store w) \<noteq> None" and "pool_phase sched opts tasks w = (w', r)"
  shows "db_connection (store w') \<noteq> None"
proof (cases "number_threads opts < 1")
  case True
  with assms show ?thesis by (simp add: pool_phase_def)
next
  case False
  obtain w1 tasks1 where rs: "run_schedule sched tasks w = (w1, tasks1)"
    by (cases "run_schedule sched tasks w")
  obtain w2 results where jp: "join_pool tasks1 w1 = (w2, results)"
    by (cases "join_pool tasks1 w1")
  from False assms(2) rs jp have "w' = w2"
    by (simp add: pool_phase_def thread_pool_run_def)
  with join_pool_opened [OF run_schedule_opened [OF assms(1) rs] jp] show ?thesis by simp
qed

section \<open>Every event of a run\<close>

lemma confined_collect_files_slack:
  assumes "\<And>level msg. Q (who, Log level msg)"
      and "\<And>h1 h2 h3 p logs slack.
             read_file_slack_func device_loop p slack_size = (logs, Inr slack) \<Longrightarrow>
             Q (who, Ds_store_entry
                  \<lparr>e_sha1 = h1, e_sha256 = h2, e_md5 = h3, e_device_id = device_id,
                   e_file_path = p, e_file_slack = Some slack\<rparr>)"
      and "confined Q who k"
  shows "confined Q who
           (collect_files env device_id hashlib_functions read_file_slack_func device_loop
              slack_size chunk_size paths hash_funcs k)"
  using assms
proof (induction paths arbitrary: hash_funcs)
  case Nil
  then show ?case by simp
next
  case (Cons absolute_path paths)
  show ?case
    by (auto simp: Cons.prems(1) split: sum.splits prod.splits
             intro!: confined_emit_logs Cons.IH Cons.prems)
qed

lemma confined_collector_slack:
  assumes "\<And>level msg. Q (who, Log level msg)"
      and "\<And>h1 h2 h3 p logs slack device_loop.
             read_file_slack_func device_loop p slack_size = (logs, Inr slack) \<Longrightarrow>
             Q (who, Ds_store_entry
                  \<lparr>e_sha1 = h1, e_sha256 = h2, e_md5 = h3, e_device_id = device_id,
                   e_file_path = p, e_file_slack = Some slack\<rparr>)"
  shows "confined Q who
           (collector env device_id source_path hashlib_functions get_device_loop_func
              read_file_slack_func slack_size chunk_size)"
  by (auto simp: collector_def assms(1) split: sum.splits
           intro!: confined_collect_files_slack assms)

lemma confined_archive_files_alias:
  assumes "\<And>level msg. Q (who, Log level msg)"
      and "\<And>source. Q (who, Ar_store_file source
                              (Some (drop (Suc con_src) (os_path_abspath env source))))"
      and "\<And>svc. confined Q who (k svc)"
  shows "confined Q who (archive_files env archive_service con_src targets k)"
  using assms
proof (induction targets arbitrary: archive_service)
  case Nil
  then show ?case by simp
next
  case (Cons target_path targets)
  show ?case
    by (auto simp: Cons.prems(1,2) Let_def split: sum.splits intro!: Cons.IH Cons.prems)
qed

lemma confined_archiver_alias:
  assumes "\<And>level msg. Q (who, Log level msg)"
      and "\<And>source. Q (who, Ar_store_file source
              (Some (drop (length device_sourcepath + 1) (os_path_abspath env source))))"
      and "\<And>location name. Q (who, Ar_provide location name)"
      and "\<And>device_id chunk_size. Q (who, Ds_get_uniques device_id chunk_size)"
      and "Q (who, Ar_close)"
  shows "confined Q who (archiver env device_id archive_service opts device_sourcepath)"
  by (auto simp: archiver_def Let_def assms split: sum.splits
           intro!: confined_archive_files_alias assms assms(2) [simplified])

text \<open>
  Every \<^verbatim>\<open>store_file\<close> call of an archiver passes the alias
  \<^verbatim>\<open>path.abspath(source)[len(device_sourcepath) + 1:]\<close>.
\<close>

lemma archiver_alias_rule:
  assumes "exec who (archiver env device_id archive_service opts device_sourcepath) w = (w', r)"
  shows "extends (alias_rule env device_sourcepath) w w'"
  by (rule exec_confined [OF confined_archiver_alias assms]) simp_all

text \<open>
  A pipeline adds to the trace only events that every coordinator call and every call
  of its tasks satisfies.
\<close>

lemma pipeline_extends:
  assumes "\<And>level msg. Q (Coordinator, Log level msg)"
      and "Q (Coordinator, Ds_open)" and "Q (Coordinator, Ds_close)"
      and "\<forall>t \<in> set (map (collector_task env opts (snd (assign_get_device_loop env))
                            (snd (assign_read_file_slack env))) devs).
             confined Q (fst t) (snd t)"
      and "\<forall>t \<in> set (map (archiver_task env archive_service opts) devs).
             confined Q (fst t) (snd t)"
  shows "extends Q w (fst (deduplication_pipeline sched1 sched2 env archive_service opts devs w))"
proof -
  obtain w1 r1 where op: "open_store w = (w1, r1)" by (cases "open_store w")
  have e1: "extends Q w w1"
    by (rule open_store_extends [where Q = Q, OF assms(2) op])
  obtain w2 r2 where cp: "(if collect opts then collect_phase sched1 env opts devs w1
      else (w1, None)) = (w2, r2)"
    by (cases "if collect opts then collect_phase sched1 env opts devs w1 else (w1, None)")
  have e2: "extends Q w1 w2"
  proof (cases "collect opts \<and> \<not> number_threads opts < 1")
    case False
    with cp show ?thesis
      by (auto simp: collect_phase_def extends_refl split: if_splits)
  next
    case True
    let ?wa = "emit Coordinator (Log (fst (fst (assign_get_device_loop env)))
                 (snd (fst (assign_get_device_loop env)))) w1"
    let ?wb = "emit Coordinator (Log (fst (fst (assign_read_file_slack env)))
                 (snd (fst (assign_read_file_slack env)))) ?wa"
    have run: "pool_phase sched1 opts
        (map (collector_task env opts (snd (assign_get_device_loop env))
                (snd (assign_read_file_slack env))) devs) ?wb = (w2, r2)"
      using cp True by (simp add: collect_phase_def Let_def split: prod.splits)
    have "extends Q w1 ?wb"
      by (intro extends_trans [OF extends_emit extends_emit] assms(1))
    with pool_phase_extends [OF assms(4) run] show ?thesis
      by (blast intro: extends_trans)
  qed
  obtain w3 r3 where ap: "(if create_archive opts
      then archive_phase sched2 env archive_service opts devs w2 else (w2, None)) = (w3, r3)"
    by (cases "if create_archive opts
      then archive_phase sched2 env archive_service opts devs w2 else (w2, None)")
  have e3: "extends Q w2 w3"
    using ap pool_phase_extends [OF assms(5)]
    by (auto simp: archive_phase_def extends_refl split: if_splits)
  obtain w4 r4 where cl: "close_store w3 = (w4, r4)" by (cases "close_store w3")
  have e4: "extends Q w3 w4"
    by (rule close_store_extends [where Q = Q, OF assms(3) cl])
  have "fst (deduplication_pipeline sched1 sched2 env archive_service opts devs w)
      \<in> {w1, w2, w3, w4}"
    using op cp ap cl
    by (auto simp: deduplication_pipeline_def split: option.splits if_splits)
  with e1 e2 e3 e4 show ?thesis
    by (auto intro: extends_trans)
qed

lemma pipeline_single_extends:
  assumes "\<And>level msg. Q (Coordinator, Log level msg)"
      and "Q (Coordinator, Ds_open)" and "Q (Coordinator, Ds_close)"
      and "\<forall>t \<in> set (map (collector_task env opts (snd (assign_get_device_loop env))
                            (snd (assign_read_file_slack env))) devs).
             confined Q (fst t) (snd t)"
      and "\<forall>t \<in> set (map (archiver_task env archive_service opts) devs).
             confined Q (fst t) (snd t)"
  shows "extends Q w (fst (deduplication_pipeline_single env archive_service opts devs w))"
proof -
  let ?wa = "emit Coordinator (Log (fst (fst (assign_get_device_loop env)))
               (snd (fst (assign_get_device_loop env)))) w"
  let ?wb = "emit Coordinator (Log (fst (fst (assign_read_file_slack env)))
               (snd (fst (assign_read_file_slack env)))) ?wa"
  have e0: "extends Q w ?wb"
    by (intro extends_trans [OF extends_emit extends_emit] assms(1))
  obtain w1 r1 where op: "open_store ?wb = (w1, r1)" by (cases "open_store ?wb")
  have e1: "extends Q ?wb w1"
    by (rule open_store_extends [where Q = Q, OF assms(2) op])
  obtain w2 r2 where cp: "run_tasks (map (collector_task env opts
        (snd (assign_get_device_loop env)) (snd (assign_read_file_slack env))) devs) w1
      = (w2, r2)"
    by (cases "run_tasks (map (collector_task env opts
        (snd (assign_get_device_loop env)) (snd (assign_read_file_slack env))) devs) w1")
  have e2: "extends Q w1 w2"
    by (rule run_tasks_confined [OF assms(4) cp])
  obtain w3 r3 where ap: "run_tasks (map (archiver_task env archive_service opts) devs) w2
      = (w3, r3)"
    by (cases "run_tasks (map (archiver_task env archive_service opts) devs) w2")
  have e3: "extends Q w2 w3"
    by (rule run_tasks_confined [OF assms(5) ap])
  obtain w4 r4 where cl: "close_store w3 = (w4, r4)" by (cases "close_store w3")
  have e4: "extends Q w3 w4"
    by (rule close_store_extends [where Q = Q, OF assms(3) cl])
  have "fst (deduplication_pipeline_single env archive_service opts devs w)
      \<in> {w1, w2, w3, w4}"
    using op cp ap cl
    by (auto simp: deduplication_pipeline_single_def Let_def split: option.splits prod.splits)
  moreover note a1 = extends_trans [OF e0 e1]
  moreover note a2 = extends_trans [OF a1 e2]
  moreover note a3 = extends_trans [OF a2 e3]
  moreover note a4 = extends_trans [OF a3 e4]
  ultimately show ?thesis by auto
qed

section \<open>The lifecycle of the store in a run\<close>

lemma confined_no_lifecycle: "confined (\<lambda>x. \<not> lifecycle x) who p"
  by (induction p) auto

lemma lifecycle_calls_append:
  "lifecycle_calls (t @ u) = lifecycle_calls t @ lifecycle_calls u"
  by (induction t rule: lifecycle_calls.induct) auto

lemma lifecycle_calls_none:
  "\<forall>x \<in> set t. \<not> lifecycle x \<Longrightarrow> lifecycle_calls t = []"
  by (induction t rule: lifecycle_calls.induct) auto

lemma extends_lifecycle:
  "extends (\<lambda>x. \<not> lifecycle x) w w' \<Longrightarrow>
   lifecycle_calls (trace w') = lifecycle_calls (trace w)"
  by (auto simp: extends_def lifecycle_calls_append lifecycle_calls_none)

lemma open_store_lifecycle:
  assumes "open_store w = (w1, r)"
  shows "lifecycle_calls (trace w1) = lifecycle_calls (trace w) @ [Ds_open]"
    and "r = None \<Longrightarrow> db_connection (store w1) \<noteq> None"
  using assms
  by (auto simp: open_store_def emit_def Let_def lifecycle_calls_append
           split: sum.splits dest: ds_open_opened)

lemma close_store_lifecycle:
  assumes "close_store w = (w1, r)"
  shows "lifecycle_calls (trace w1) = lifecycle_calls (trace w) @ [Ds_close]"
    and "db_connection (store w) \<noteq> None \<Longrightarrow> r = None"
  using assms
  by (auto simp: close_store_def ds_close_def emit_def Let_def lifecycle_calls_append
           split: sum.splits option.splits)

lemma collect_phase_lifecycle:
  assumes "collect_phase sched env opts devs w = (w1, r)"
  shows "lifecycle_calls (trace w1) = lifecycle_calls (trace w)"
    and "db_connection (store w) \<noteq> None \<Longrightarrow> db_connection (store w1) \<noteq> None"
proof -
  let ?wa = "emit Coordinator (Log (fst (fst (assign_get_device_loop env)))
               (snd (fst (assign_get_device_loop env)))) w"
  let ?wb = "emit Coordinator (Log (fst (fst (assign_read_file_slack env)))
               (snd (fst (assign_read_file_slack env)))) ?wa"
  let ?tasks = "map (collector_task env opts (snd (assign_get_device_loop env))
                  (snd (assign_read_file_slack env))) devs"
  have both: "lifecycle_calls (trace w1) = lifecycle_calls (trace w) \<and>
      (db_connection (store w) \<noteq> None \<longrightarrow> db_connection (store w1) \<noteq> None)"
  proof (cases "number_threads opts < 1")
    case True
    with assms show ?thesis by (simp add: collect_phase_def)
  next
    case False
    with assms have run: "pool_phase sched opts ?tasks ?wb = (w1, r)"
      by (simp add: collect_phase_def Let_def split: prod.splits)
    have "extends (\<lambda>x. \<not> lifecycle x) ?wb w1"
      by (rule pool_phase_extends [OF _ run]) (simp add: confined_no_lifecycle)
    from extends_lifecycle [OF this]
    have "lifecycle_calls (trace w1) = lifecycle_calls (trace w)"
      by (simp add: emit_def lifecycle_calls_append)
    moreover have "db_connection (store w1) \<noteq> None" if "db_connection (store w) \<noteq> None"
      by (rule pool_phase_opened [OF _ run]) (simp add: store_emit that)
    ultimately show ?thesis by blast
  qed
  from both show "lifecycle_calls (trace w1) = lifecycle_calls (trace w)" by blast
  from both show "db_connection (store w) \<noteq> None \<Longrightarrow> db_connection (store w1) \<noteq> None"
    by blast
qed

lemma archive_phase_lifecycle:
  assumes "archive_phase sched env archive_service opts devs w = (w1, r)"
  shows "lifecycle_calls (trace w1) = lifecycle_calls (trace w)"
    and "db_connection (store w) \<noteq> None \<Longrightarrow> db_connection (store w1) \<noteq> None"
proof -
  have run: "pool_phase sched opts (map (archiver_task env archive_service opts) devs) w
      = (w1, r)"
    using assms by (simp add: archive_phase_def)
  have "extends (\<lambda>x. \<not> lifecycle x) w w1"
    by (rule pool_phase_extends [OF _ run]) (simp add: confined_no_lifecycle)
  then show "lifecycle_calls (trace w1) = lifecycle_calls (trace w)"
    by (rule extends_lifecycle)
  show "db_connection (store w) \<noteq> None \<Longrightarrow> db_connection (store w1) \<noteq> None"
    by (rule pool_phase_opened [OF _ run])
qed

lemma run_tasks_lifecycle:
  assumes "run_tasks tasks w = (w1, r)"
  shows "lifecycle_calls (trace w1) = lifecycle_calls (trace w)"
  by (rule extends_lifecycle [OF run_tasks_confined [OF _ assms]])
     (simp add: confined_no_lifecycle)

text \<open>
  In every run of either pipeline the store receives one \<^verbatim>\<open>open\<close> call and never an
  \<^verbatim>\<open>abort\<close> call; it receives the \<^verbatim>\<open>close\<close> call if and only if the run ends
  without an exception.
\<close>

lemma pipeline_lifecycle:
  assumes "trace w = []"
      and "deduplication_pipeline sched1 sched2 env archive_service opts devs w = (w', r)"
  shows "lifecycle_calls (trace w') = (if r = None then [Ds_open, Ds_close] else [Ds_open])"
proof -
  obtain w1 r1 where op: "open_store w = (w1, r1)" by (cases "open_store w")
  note o1 = open_store_lifecycle [OF op]
  have l1: "lifecycle_calls (trace w1) = [Ds_open]"
    using o1(1) assms(1) by simp
  show ?thesis
  proof (cases r1)
    case (Some err)
    with assms(2) op l1 show ?thesis by (auto simp: deduplication_pipeline_def)
  next
    case None
    note open1 = o1(2) [OF None]
    obtain w2 r2 where cp: "(if collect opts then collect_phase sched1 env opts devs w1
        else (w1, None)) = (w2, r2)"
      by (cases "if collect opts then collect_phase sched1 env opts devs w1 else (w1, None)")
    have l2: "lifecycle_calls (trace w2) = [Ds_open]" and open2: "db_connection (store w2) \<noteq> None"
      using cp l1 open1 collect_phase_lifecycle [of sched1 env opts devs w1 w2 r2]
      by (auto split: if_splits)
    show ?thesis
    proof (cases r2)
      case (Some err)
      with assms(2) op None cp l2 show ?thesis by (auto simp: deduplication_pipeline_def)
    next
      case r2: None
      obtain w3 r3 where ap: "(if create_archive opts
          then archive_phase sched2 env archive_service opts devs w2 else (w2, None)) = (w3, r3)"
        by (cases "if create_archive opts
          then archive_phase sched2 env archive_service opts devs w2 else (w2, None)")
      have l3: "lifecycle_calls (trace w3) = [Ds_open]"
          and open3: "db_connection (store w3) \<noteq> None"
        using ap l2 open2
          archive_phase_lifecycle [of sched2 env archive_service opts devs w2 w3 r3]
        by (auto split: if_splits)
      show ?thesis
      proof (cases r3)
        case (Some err)
        with assms(2) op None cp r2 ap l3 show ?thesis
          by (auto simp: deduplication_pipeline_def)
      next
        case r3: None
        obtain w4 r4 where cl: "close_store w3 = (w4, r4)" by (cases "close_store w3")
        note c4 = close_store_lifecycle [OF cl]
        from assms(2) op None cp r2 ap r3 cl have "w' = w4" "r = r4"
          by (simp_all add: deduplication_pipeline_def)
        with c4(1) c4(2) [OF open3] l3 show ?thesis by simp
      qed
    qed
  qed
qed

lemma pipeline_single_lifecycle:
  assumes "trace w = []"
      and "deduplication_pipeline_single env archive_service opts devs w = (w', r)"
  shows "lifecycle_calls (trace w') = (if r = None then [Ds_open, Ds_close] else [Ds_open])"
proof -
  let ?wa = "emit Coordinator (Log (fst (fst (assign_get_device_loop env)))
               (snd (fst (assign_get_device_loop env)))) w"
  let ?wb = "emit Coordinator (Log (fst (fst (assign_read_file_slack env)))
               (snd (fst (assign_read_file_slack env)))) ?wa"
  let ?collectors = "map (collector_task env opts (snd (assign_get_device_loop env))
                  (snd (assign_read_file_slack env))) devs"
  let ?archivers = "map (archiver_task env archive_service opts) devs"
  have l0: "lifecycle_calls (trace ?wb) = []"
    using assms(1) by (simp add: emit_def)
  obtain w1 r1 where op: "open_store ?wb = (w1, r1)" by (cases "open_store ?wb")
  note o1 = open_store_lifecycle [OF op]
  have l1: "lifecycle_calls (trace w1) = [Ds_open]"
    using o1(1) l0 by simp
  have unfold: "deduplication_pipeline_single env archive_service opts devs w =
      (case open_store ?wb of
         (w1, Some err) \<Rightarrow> (w1, Some err)
       | (w1, None) \<Rightarrow>
           (case run_tasks ?collectors w1 of
              (w2, Some err) \<Rightarrow> (w2, Some err)
            | (w2, None) \<Rightarrow>
                (case run_tasks ?archivers w2 of
                   (w3, Some err) \<Rightarrow> (w3, Some err)
                 | (w3, None) \<Rightarrow> close_store w3)))"
    by (simp add: deduplication_pipeline_single_def Let_def split: prod.splits)
  show ?thesis
  proof (cases r1)
    case (Some err)
    with assms(2) op l1 show ?thesis by (auto simp: unfold)
  next
    case None
    note open1 = o1(2) [OF None]
    obtain w2 r2 where cp: "run_tasks ?collectors w1 = (w2, r2)"
      by (cases "run_tasks ?collectors w1")
    have l2: "lifecycle_calls (trace w2) = [Ds_open]"
      using run_tasks_lifecycle [OF cp] l1 by simp
    note open2 = run_tasks_opened [OF open1 cp]
    show ?thesis
    proof (cases r2)
      case (Some err)
      with assms(2) op None cp l2 show ?thesis by (auto simp: unfold)
    next
      case r2: None
      obtain w3 r3 where ap: "run_tasks ?archivers w2 = (w3, r3)"
        by (cases "run_tasks ?archivers w2")
      have l3: "lifecycle_calls (trace w3) = [Ds_open]"
        using run_tasks_lifecycle [OF ap] l2 by simp
      note open3 = run_tasks_opened [OF open2 ap]
      show ?thesis
      proof (cases r3)
        case (Some err)
        with assms(2) op None cp r2 ap l3 show ?thesis by (auto simp: unfold)
      next
        case r3: None
        obtain w4 r4 where cl: "close_store w3 = (w4, r4)" by (cases "close_store w3")
        note c4 = close_store_lifecycle [OF cl]
        from assms(2) op None cp r2 ap r3 cl have "w' = w4" "r = r4"
          by (simp_all add: unfold)
        with c4(1) c4(2) [OF open3] l3 show ?thesis by simp
      qed
    qed
  qed
qed

text \<open>
  C2, at a failing input: a file of the first device cannot be opened. In both
  pipelines the run ends with the \<^verbatim>\<open>IOError\<close>; the store has received its
  \<^verbatim>\<open>open\<close> call, no \<^verbatim>\<open>close\<close> call and no \<^verbatim>\<open>abort\<close> call, and its connection
  is left open.
\<close>

theorem fatal_run_without_abort:
  "snd (deduplication_pipeline_single unreadable_env \<lparr>zip_file_ptr = None\<rparr> example_options
          example_devices example_world) = Some IOError \<and>
   lifecycle_calls
     (trace (fst (deduplication_pipeline_single unreadable_env \<lparr>zip_file_ptr = None\<rparr>
                    example_options example_devices example_world))) = [Ds_open] \<and>
   db_connection
     (store (fst (deduplication_pipeline_single unreadable_env \<lparr>zip_file_ptr = None\<rparr>
                    example_options example_devices example_world)))
     = Some \<lparr>pending = [], in_transaction = True\<rparr> \<and>
   snd (deduplication_pipeline [0, 1, 0] [] unreadable_env \<lparr>zip_file_ptr = None\<rparr>
          (example_options\<lparr>number_threads := 2\<rparr>) example_devices example_world)
     = Some IOError \<and>
   lifecycle_calls
     (trace (fst (deduplication_pipeline [0, 1, 0] [] unreadable_env \<lparr>zip_file_ptr = None\<rparr>
                    (example_options\<lparr>number_threads := 2\<rparr>) example_devices
                    example_world))) = [Ds_open]"
  by (simp add: model_defs unreadable_env_def example_env_def example_options_def
        example_devices_def example_world_def str_nat.simps)

section \<open>The slack reader\<close>

lemma read_file_slack_no_cluster:
  "slack_size \<le> 0 \<Longrightarrow> read_file_slack env device_loop file_path slack_size = ([], Inr [])"
  by (simp add: read_file_slack_def)

lemma read_file_slack_unsupported:
  "platform_system env \<noteq> ''Linux'' \<Longrightarrow>
   snd (assign_read_file_slack env) device_loop file_path slack_size = ([], Inr [])"
  by (simp add: assign_read_file_slack_def)

lemma read_slack_failure:
  assumes "device_loop = None \<or> (\<exists>loop. device_loop = Some loop \<and> open_rb env loop = None)
             \<or> block_space * block_size < 0"
  shows "snd (read_slack env device_loop block_space block_size) = []"
  using assms by (auto simp: read_slack_def Let_def split: option.splits)

text \<open>
  C5, at a failing input: on Linux, with a cluster size of 4, when the block query of
  \<^verbatim>\<open>get_slack_block\<close> prints nothing, the slack reader raises
  \<^verbatim>\<open>StopIteration\<close> to its caller; it returns no byte sequence and logs no error.
\<close>

theorem read_file_slack_raises:
  "snd (assign_read_file_slack silent_env) (Some ''/dev/loop0'') ''/mnt/sd/a.txt'' 4
     = ([(DEBUG, ''Execute command: {}'')], Inl StopIteration)"
  by (simp add: assign_read_file_slack_def read_file_slack_def get_slack_block_def
        silent_env_def example_env_def)

section \<open>Slack and the option \<open>store_slack_space\<close>\<close>

lemma stored_entries_empty_slack:
  "\<forall>x \<in> set t. empty_slack x \<Longrightarrow> \<forall>e \<in> set (stored_entries t). e_file_slack e = Some []"
  by (induction t rule: stored_entries.induct) auto

lemma collector_tasks_empty_slack:
  assumes "platform_system env \<noteq> ''Linux''"
  shows "\<forall>t \<in> set (map (collector_task env opts (snd (assign_get_device_loop env))
                         (snd (assign_read_file_slack env))) devs).
           confined empty_slack (fst t) (snd t)"
  using assms
  by (auto simp: collector_task_def assign_read_file_slack_def
           intro!: confined_collector_slack)

lemma archiver_tasks_empty_slack:
  "\<forall>t \<in> set (map (archiver_task env archive_service opts) devs).
     confined empty_slack (fst t) (snd t)"
  by (auto simp: archiver_task_def intro!: confined_archiver)

text \<open>
  On a platform other than Linux every entry that a run stores has an empty slack,
  whatever the cluster sizes and the options are.
\<close>

lemma unsupported_platform_empty_slack:
  assumes "platform_system env \<noteq> ''Linux''" and "trace w = []"
  shows "\<forall>e \<in> set (stored_entries
                     (trace (fst (deduplication_pipeline sched1 sched2 env archive_service
                                    opts devs w)))).
           e_file_slack e = Some []"
    and "\<forall>e \<in> set (stored_entries
                     (trace (fst (deduplication_pipeline_single env archive_service opts
                                    devs w)))).
           e_file_slack e = Some []"
proof -
  have "extends empty_slack w
          (fst (deduplication_pipeline sched1 sched2 env archive_service opts devs w))"
    by (rule pipeline_extends
          [OF _ _ _ collector_tasks_empty_slack [OF assms(1)] archiver_tasks_empty_slack])
       simp_all
  then show "\<forall>e \<in> set (stored_entries
                     (trace (fst (deduplication_pipeline sched1 sched2 env archive_service
                                    opts devs w)))).
           e_file_slack e = Some []"
    using assms(2) by (auto simp: extends_def dest!: stored_entries_empty_slack)
  have "extends empty_slack w
          (fst (deduplication_pipeline_single env archive_service opts devs w))"
    by (rule pipeline_single_extends
          [OF _ _ _ collector_tasks_empty_slack [OF assms(1)] archiver_tasks_empty_slack])
       simp_all
  then show "\<forall>e \<in> set (stored_entries
                     (trace (fst (deduplication_pipeline_single env archive_service opts
                                    devs w)))).
           e_file_slack e = Some []"
    using assms(2) by (auto simp: extends_def dest!: stored_entries_empty_slack)
qed

text \<open>
  C3, at a failing input: with the default options (\<open>store_slack_space\<close> off) on
  Linux, the entries of a device with cluster size 4 are stored with the four bytes of
  the block read from the device loop; only the device with cluster size 0 gets an
  empty slack.
\<close>

theorem slack_stored_with_store_slack_space_off:
  "store_slack_space example_options = False \<and>
   map e_file_slack
     (stored_entries
        (trace (fst (deduplication_pipeline_single example_env \<lparr>zip_file_ptr = None\<rparr>
                       example_options example_devices example_world))))
     = [Some [5, 6, 7, 8], Some [5, 6, 7, 8], Some []]"
  by (simp add: model_defs example_env_def example_options_def example_devices_def
        example_world_def str_nat.simps)

section \<open>The alias of an archived file\<close>

lemma alias_under_mount_path:
  "drop (length device_sourcepath + 1) (device_sourcepath @ ''/'' @ relative) = relative"
  by simp

text \<open>
  C7, at a failing input: the device is mounted at \<^verbatim>\<open>/\<close>. The walk gives
  \<^verbatim>\<open>/vmlinuz\<close> and \<^verbatim>\<open>/etc/passwd\<close>, and the archiver stores them under the
  aliases \<^verbatim>\<open>mlinuz\<close> and \<^verbatim>\<open>tc/passwd\<close>: two characters are removed where the
  mount path has one, and the hierarchy under the device root is not preserved.
\<close>

theorem alias_at_root_mount:
  "walked_paths root_env (os_path_abspath root_env (remove_quotes ([CHR 0x22] @ ''/'' @ [CHR 0x22])))
     = [''/vmlinuz'', ''/etc/passwd''] \<and>
   store_file_calls
     (trace (fst (deduplication_pipeline_single root_env \<lparr>zip_file_ptr = None\<rparr>
                    example_options root_devices example_world)))
     = [(''/etc/passwd'', Some ''tc/passwd''), (''/vmlinuz'', Some ''mlinuz'')]"
  by (simp add: model_defs root_env_def example_env_def example_options_def
        root_devices_def example_world_def str_nat.simps)

section \<open>A file that cannot be opened\<close>

lemma exec_emit_logs:
  "exec who (emit_logs logs p) w
     = exec who p (w\<lparr>trace := trace w @ map (\<lambda>(level, msg). (who, Log level msg)) logs\<rparr>)"
  by (induction logs arbitrary: w) (auto simp: emit_def)

lemma collect_files_unopenable:
  assumes "os_path_isfile env absolute_path" and "open_rb env absolute_path = None"
  shows "collect_files env device_id hashlib_functions read_file_slack_func device_loop
           slack_size chunk_size (absolute_path # paths) hash_funcs k
         = Logger DEBUG ''Processing: {}'' (Raise IOError)"
  using assms by (simp add: calculate_file_hashes_def)

lemma collect_files_raises:
  assumes "absolute_path \<in> set paths"
      and "os_path_isfile env absolute_path" and "open_rb env absolute_path = None"
  shows "\<exists>err. snd (exec who (collect_files env device_id hashlib_functions
                          read_file_slack_func device_loop slack_size chunk_size paths
                          hash_funcs k) w) = Some err"
  using assms(1)
proof (induction paths arbitrary: hash_funcs w)
  case Nil
  then show ?case by simp
next
  case (Cons q paths)
  show ?case
  proof (cases "q = absolute_path")
    case True
    then show ?thesis
      using assms(2,3) by (simp add: calculate_file_hashes_def)
  next
    case False
    with Cons.prems have later: "absolute_path \<in> set paths" by simp
    note ih = Cons.IH [OF later]
    show ?thesis
    proof (cases "os_path_isfile env q")
      case False
      then show ?thesis using ih by simp
    next
      case True
      show ?thesis
      proof (cases "calculate_file_hashes (hexdigest env) (open_rb env q) hash_funcs chunk_size")
        case (Inl err)
        with True show ?thesis by simp
      next
        case (Inr digests)
        obtain h1 h2 h3 where digests: "digests = (h1, h2, h3)" by (cases digests)
        obtain logs res where slack: "read_file_slack_func device_loop q slack_size = (logs, res)"
          by (cases "read_file_slack_func device_loop q slack_size")
        show ?thesis
        proof (cases res)
          case (Inl err)
          with True Inr digests slack show ?thesis by (simp add: exec_emit_logs)
        next
          case (Inr file_slack)
          with True \<open>calculate_file_hashes (hexdigest env) (open_rb env q) hash_funcs chunk_size
              = Inr digests\<close> digests slack ih
          show ?thesis
            by (auto simp: exec_emit_logs Let_def split: sum.splits)
        qed
      qed
    qed
  qed
qed

text \<open>
  C4, as the code has it. When the walk of the collector reaches a regular file that
  cannot be opened, \<^verbatim>\<open>calculate_file_hashes\<close> raises and nothing catches it: the
  collector makes the debug call for the file and ends with the \<^verbatim>\<open>IOError\<close>,
  whatever paths remain, with no error logged and no entry stored for this file or a
  later one. So a collector whose walk contains such a file always ends with an
  exception.
\<close>

theorem collector_ends_at_unopenable_file:
  assumes "os_path_isfile env absolute_path" and "open_rb env absolute_path = None"
  shows "exec who (collect_files env device_id hashlib_functions read_file_slack_func
                     device_loop slack_size chunk_size (absolute_path # paths) hash_funcs k) w
           = (emit who (Log DEBUG ''Processing: {}'') w, Some IOError)
       \<and> (absolute_path \<in> set (walked_paths env source_path) \<longrightarrow>
            snd (exec who (collector env device_id source_path hashlib_functions
                             get_device_loop_func read_file_slack_func slack_size chunk_size) w)
              \<noteq> None)"
proof -
  have at_file: "exec who (collect_files env device_id hashlib_functions read_file_slack_func
                     device_loop slack_size chunk_size (absolute_path # paths) hash_funcs k) w
           = (emit who (Log DEBUG ''Processing: {}'') w, Some IOError)"
    by (simp only: collect_files_unopenable [OF assms] exec.simps)
  have "snd (exec who (collector env device_id source_path hashlib_functions
                         get_device_loop_func read_file_slack_func slack_size chunk_size) w)
          \<noteq> None"
    if "absolute_path \<in> set (walked_paths env source_path)"
    using collect_files_raises [OF that assms]
    by (auto simp: collector_def split: sum.splits)
  with at_file show ?thesis by blast
qed

theorem collector_ends_at_unopenable_file_witness:
  "os_path_isfile unreadable_env ''/mnt/sd/b.txt'' \<and>
   open_rb unreadable_env ''/mnt/sd/b.txt'' = None \<and>
   exec (Collector 1)
     (collect_files unreadable_env 1 (Some (new_hash SHA1), None, None)
        (read_file_slack unreadable_env) (Some ''/dev/loop0'') 4 65536
        [''/mnt/sd/b.txt'', ''/mnt/sd/a.txt''] (Some (new_hash SHA1), None, None) Return)
     example_world
     = (emit (Collector 1) (Log DEBUG ''Processing: {}'') example_world, Some IOError) \<and>
   ''/mnt/sd/b.txt'' \<in> set (walked_paths unreadable_env ''/mnt/sd'') \<and>
   snd (exec (Collector 1)
          (collector unreadable_env 1 ''/mnt/sd'' (Some (new_hash SHA1), None, None)
             (get_device_loop_linux unreadable_env) (read_file_slack unreadable_env) 4 65536)
          example_world) \<noteq> None"
proof -
  have isfile: "os_path_isfile unreadable_env ''/mnt/sd/b.txt''"
    by (simp add: unreadable_env_def example_env_def)
  have closed: "open_rb unreadable_env ''/mnt/sd/b.txt'' = None"
    by (simp add: unreadable_env_def example_env_def)
  have walked: "''/mnt/sd/b.txt'' \<in> set (walked_paths unreadable_env ''/mnt/sd'')"
    by (simp add: walked_paths_def unreadable_env_def example_env_def path_join_def
          startswith_def)
  from collector_ends_at_unopenable_file [OF isfile closed] isfile closed walked
  show ?thesis by blast
qed

text \<open>
  The claim fails on the host where \<^verbatim>\<open>/mnt/sd/b.txt\<close> cannot be opened and
  \<^verbatim>\<open>/mnt/sd/a.txt\<close>, walked after it, can: the run ends with the \<^verbatim>\<open>IOError\<close>,
  no error is logged, and no entry is stored, not even for \<^verbatim>\<open>a.txt\<close>.
\<close>

theorem unopenable_file_is_not_skipped:
  "walked_paths unreadable_env ''/mnt/sd'' = [''/mnt/sd/b.txt'', ''/mnt/sd/a.txt''] \<and>
   open_rb unreadable_env ''/mnt/sd/b.txt'' = None \<and>
   open_rb unreadable_env ''/mnt/sd/a.txt'' = Some [104, 105] \<and>
   snd (deduplication_pipeline_single unreadable_env \<lparr>zip_file_ptr = None\<rparr> example_options
          example_devices example_world) = Some IOError \<and>
   error_records
     (trace (fst (deduplication_pipeline_single unreadable_env \<lparr>zip_file_ptr = None\<rparr>
                    example_options example_devices example_world))) = [] \<and>
   stored_entries
     (trace (fst (deduplication_pipeline_single unreadable_env \<lparr>zip_file_ptr = None\<rparr>
                    example_options example_devices example_world))) = []"
  by (simp add: model_defs unreadable_env_def example_env_def example_options_def
        example_devices_def example_world_def str_nat.simps)

section \<open>Storing an entry twice\<close>

text \<open>
  C9, as the code has it. \<^verbatim>\<open>store_entry\<close> has no duplicate check and makes no logger
  call. On an open store whose table accepts the row (a table without constraints
  accepts every row), an entry, also one that is stored already, is appended to the
  rows; the call adds nothing but itself to the trace and the task goes on, so the run
  is not aborted because of it.
\<close>

theorem store_entry_appends_duplicate:
  assumes "db_connection (store w) = Some con"
      and "db_accepts (store w) (visible_rows (store w)) entry"
  shows "\<exists>s. step who (Store_entry entry p) w
                = (\<lparr>trace = trace w @ [(who, Ds_store_entry entry)], store = s\<rparr>, p)
             \<and> visible_rows s = visible_rows (store w) @ [entry]"
proof -
  have "\<exists>s. store_entry (store w) entry = Inr s"
    using assms
    by (simp add: store_entry_def begin_transaction_def commit_def Let_def)
  then obtain s where s: "store_entry (store w) entry = Inr s" ..
  from store_entry_visible [OF s] s show ?thesis
    by (cases w) (auto simp: emit_def Let_def)
qed

theorem store_entry_appends_duplicate_witness:
  "db_connection (store \<lparr>trace = [], store = example_store\<lparr>db_connection :=
        Some \<lparr>pending = [example_entry ''aaf4'' 1 ''/mnt/sd/a.txt''], in_transaction = True\<rparr>\<rparr>\<rparr>)
     = Some \<lparr>pending = [example_entry ''aaf4'' 1 ''/mnt/sd/a.txt''], in_transaction = True\<rparr> \<and>
   example_entry ''aaf4'' 1 ''/mnt/sd/a.txt''
     \<in> set (visible_rows (store \<lparr>trace = [], store = example_store\<lparr>db_connection :=
          Some \<lparr>pending = [example_entry ''aaf4'' 1 ''/mnt/sd/a.txt''],
                in_transaction = True\<rparr>\<rparr>\<rparr>)) \<and>
   (\<exists>s. step (Collector 1) (Store_entry (example_entry ''aaf4'' 1 ''/mnt/sd/a.txt'') Return)
           \<lparr>trace = [], store = example_store\<lparr>db_connection :=
              Some \<lparr>pending = [example_entry ''aaf4'' 1 ''/mnt/sd/a.txt''],
                    in_transaction = True\<rparr>\<rparr>\<rparr>
         = (\<lparr>trace = [(Collector 1, Ds_store_entry (example_entry ''aaf4'' 1 ''/mnt/sd/a.txt''))],
             store = s\<rparr>, Return)
       \<and> visible_rows s = [example_entry ''aaf4'' 1 ''/mnt/sd/a.txt'',
                             example_entry ''aaf4'' 1 ''/mnt/sd/a.txt''])"
proof -
  let ?e = "example_entry ''aaf4'' 1 ''/mnt/sd/a.txt''"
  let ?w = "\<lparr>trace = [], store = example_store\<lparr>db_connection :=
              Some \<lparr>pending = [?e], in_transaction = True\<rparr>\<rparr>\<rparr>"
  have open_store: "db_connection (store ?w) = Some \<lparr>pending = [?e], in_transaction = True\<rparr>"
    by simp
  have accepted: "db_accepts (store ?w) (visible_rows (store ?w)) ?e"
    by (simp add: example_store_def sqlite3_data_store_init_def)
  have rows: "visible_rows (store ?w) = [?e]"
    by (simp add: visible_rows_def example_store_def sqlite3_data_store_init_def)
  from store_entry_appends_duplicate [OF open_store accepted, of "Collector 1" Return]
    open_store rows
  show ?thesis by simp
qed

text \<open>
  The claim fails on an open store that holds an entry and is given it again: the
  table without constraints then holds the entry twice, and nothing is logged; on a
  table that rejects equal rows the \<^verbatim>\<open>IntegrityError\<close> of the INSERT leaves
  \<^verbatim>\<open>store_entry\<close>, and nothing is logged either.
\<close>

theorem duplicate_is_not_logged_and_skipped:
  "snd (exec (Collector 1)
          (Store_entry (example_entry ''aaf4'' 1 ''/mnt/sd/a.txt'')
             (Store_entry (example_entry ''aaf4'' 1 ''/mnt/sd/a.txt'') Return))
          \<lparr>trace = [], store = example_store\<rparr>) = None \<and>
   visible_rows (store (fst (exec (Collector 1)
          (Store_entry (example_entry ''aaf4'' 1 ''/mnt/sd/a.txt'')
             (Store_entry (example_entry ''aaf4'' 1 ''/mnt/sd/a.txt'') Return))
          \<lparr>trace = [], store = example_store\<rparr>)))
     = [example_entry ''aaf4'' 1 ''/mnt/sd/a.txt'', example_entry ''aaf4'' 1 ''/mnt/sd/a.txt''] \<and>
   error_records (trace (fst (exec (Collector 1)
          (Store_entry (example_entry ''aaf4'' 1 ''/mnt/sd/a.txt'')
             (Store_entry (example_entry ''aaf4'' 1 ''/mnt/sd/a.txt'') Return))
          \<lparr>trace = [], store = example_store\<rparr>))) = [] \<and>
   snd (exec (Collector 1)
          (Store_entry (example_entry ''aaf4'' 1 ''/mnt/sd/a.txt'')
             (Store_entry (example_entry ''aaf4'' 1 ''/mnt/sd/a.txt'') Return))
          \<lparr>trace = [], store = example_store\<lparr>db_accepts := reject_equal_rows\<rparr>\<rparr>)
     = Some IntegrityError \<and>
   error_records (trace (fst (exec (Collector 1)
          (Store_entry (example_entry ''aaf4'' 1 ''/mnt/sd/a.txt'')
             (Store_entry (example_entry ''aaf4'' 1 ''/mnt/sd/a.txt'') Return))
          \<lparr>trace = [], store = example_store\<lparr>db_accepts := reject_equal_rows\<rparr>\<rparr>))) = []"
  by (simp add: example_store_def sqlite3_data_store_init_def store_entry_def
        visible_rows_def emit_def reject_equal_rows_def Let_def)

end
